theory Spec2Isabelle
  imports Main "HOL-Library.Word"
begin

unbundle bit_operations_syntax

section \<open>SPSC ring buffer (include/spsc/ring_buffer.hpp)\<close>

text \<open>
  \<^verbatim>\<open>RingBuffer<T, Capacity>\<close> holds a fixed array of \<open>Capacity\<close> slots and the two
  indices \<open>head_\<close> (next slot the producer writes) and \<open>tail_\<close> (next slot the consumer
  reads). The template parameter \<open>Capacity\<close> is passed to every operation explicitly.
  The indices are \<open>size_t\<close>; they stay below \<open>Capacity\<close>, so \<open>index + 1\<close> never
  wraps the machine word and they are modelled as natural numbers. The atomics are read
  and written sequentially here: the model is the single-threaded behaviour of the class.
\<close>

record 'a RingBuffer =
  buffer :: "'a list"
  head :: nat
  tail :: nat

text \<open>The constructor: both indices zero, every slot value-initialised (\<open>T{}\<close>).\<close>

definition new_ring :: "nat \<Rightarrow> 'a \<Rightarrow> 'a RingBuffer" where
  "new_ring Capacity zero = \<lparr> buffer = replicate Capacity zero, head = 0, tail = 0 \<rparr>"

text \<open>\<^verbatim>\<open>return (index + 1) & (Capacity - 1);\<close>\<close>

definition increment :: "nat \<Rightarrow> nat \<Rightarrow> nat" where
  "increment Capacity index = (index + 1) AND (Capacity - 1)"

text \<open>
  \<^verbatim>\<open>try_push\<close>: the result pairs the returned flag with the ring afterwards.
\<close>

definition try_push :: "nat \<Rightarrow> 'a \<Rightarrow> 'a RingBuffer \<Rightarrow> bool \<times> 'a RingBuffer" where
  "try_push Capacity item rb =
     (let current_head = head rb;
          next_head = increment Capacity current_head
      in if next_head = tail rb then (False, rb)
         else (True, rb\<lparr> buffer := (buffer rb)[current_head := item], head := next_head \<rparr>))"

text \<open>
  \<^verbatim>\<open>try_pop\<close>: \<open>None\<close> is \<^verbatim>\<open>std::nullopt\<close>. The slot read is \<open>buffer_[current_tail]\<close>;
  the index is in range in every state the operations can reach (lemma \<open>reachable_inv\<close>).
\<close>

definition try_pop :: "nat \<Rightarrow> 'a RingBuffer \<Rightarrow> 'a option \<times> 'a RingBuffer" where
  "try_pop Capacity rb =
     (let current_tail = tail rb
      in if current_tail = head rb then (None, rb)
         else (Some (buffer rb ! current_tail), rb\<lparr> tail := increment Capacity current_tail \<rparr>))"

definition empty :: "'a RingBuffer \<Rightarrow> bool" where
  "empty rb = (head rb = tail rb)"

definition full :: "nat \<Rightarrow> 'a RingBuffer \<Rightarrow> bool" where
  "full Capacity rb = (increment Capacity (head rb) = tail rb)"

text \<open>\<^verbatim>\<open>size()\<close>, with the source's two branches.\<close>

definition size_rb :: "nat \<Rightarrow> 'a RingBuffer \<Rightarrow> nat" where
  "size_rb Capacity rb =
     (if head rb \<ge> tail rb then head rb - tail rb
      else Capacity - tail rb + head rb)"

text \<open>
  Pushing a list of items one after the other, as \<^verbatim>\<open>try_push_batch\<close> without the early
  exit: the flags of all calls, in order, and the ring after the last one.
\<close>

fun push_all :: "nat \<Rightarrow> 'a list \<Rightarrow> 'a RingBuffer \<Rightarrow> bool list \<times> 'a RingBuffer" where
  "push_all Capacity [] rb = ([], rb)"
| "push_all Capacity (x # xs) rb =
     (let (ok, rb') = try_push Capacity x rb;
          (oks, rb'') = push_all Capacity xs rb'
      in (ok # oks, rb''))"

text \<open>The rings that calls of \<open>try_push\<close> and \<open>try_pop\<close> reach from a new ring.\<close>

inductive reachable :: "nat \<Rightarrow> 'a \<Rightarrow> 'a RingBuffer \<Rightarrow> bool" for Capacity :: nat and zero :: 'a where
  reach_new: "reachable Capacity zero (new_ring Capacity zero)"
| reach_push: "reachable Capacity zero rb \<Longrightarrow> reachable Capacity zero (snd (try_push Capacity x rb))"
| reach_pop: "reachable Capacity zero rb \<Longrightarrow> reachable Capacity zero (snd (try_pop Capacity rb))"

text \<open>The ring invariant: both indices address a slot.\<close>

definition ring_inv :: "nat \<Rightarrow> 'a RingBuffer \<Rightarrow> bool" where
  "ring_inv Capacity rb =
     (length (buffer rb) = Capacity \<and> head rb < Capacity \<and> tail rb < Capacity)"

section \<open>ITCH 5.0 parser (include/itch5/messages.hpp, include/itch5/parser.hpp)\<close>

type_synonym byte = "8 word"

subsection \<open>Big-endian readers (include/common/endian.hpp)\<close>

text \<open>
  \<open>be_val\<close> is the number a byte string denotes when its first byte is the most
  significant one. \<^verbatim>\<open>read_be16\<close>, \<^verbatim>\<open>read_be32\<close> and \<^verbatim>\<open>read_be64\<close> copy 2, 4 or 8 bytes
  into an integer of the (little-endian) host and swap its bytes, and \<^verbatim>\<open>ntoh32\<close> and
  \<^verbatim>\<open>ntoh64\<close> applied to a field of a packed struct lying over the buffer do the same: the
  result is the big-endian value of those bytes. The readers take the bytes from the
  pointer on; every caller has checked that enough bytes are there.
\<close>

fun be_val :: "byte list \<Rightarrow> nat" where
  "be_val [] = 0"
| "be_val (b # bs) = unat b * 256 ^ length bs + be_val bs"

definition read_be16 :: "byte list \<Rightarrow> 16 word" where
  "read_be16 ptr = of_nat (be_val (take 2 ptr))"

definition read_be32 :: "byte list \<Rightarrow> 32 word" where
  "read_be32 ptr = of_nat (be_val (take 4 ptr))"

definition read_be64 :: "byte list \<Rightarrow> 64 word" where
  "read_be64 ptr = of_nat (be_val (take 8 ptr))"

text \<open>\<^verbatim>\<open>read_be48\<close> is written out with shifts in the source.\<close>

definition read_be48 :: "byte list \<Rightarrow> 64 word" where
  "read_be48 bytes =
     push_bit 40 (ucast (bytes ! 0)) OR push_bit 32 (ucast (bytes ! 1)) OR
     push_bit 24 (ucast (bytes ! 2)) OR push_bit 16 (ucast (bytes ! 3)) OR
     push_bit 8 (ucast (bytes ! 4)) OR ucast (bytes ! 5)"

text \<open>
  The writers the tests use to build messages and packets (\<^verbatim>\<open>hton16\<close>, \<^verbatim>\<open>hton32\<close>,
  \<^verbatim>\<open>hton64\<close> followed by a copy, and \<^verbatim>\<open>set_timestamp\<close>): the \<open>n\<close> low bytes of a value,
  most significant first.
\<close>

fun to_be :: "nat \<Rightarrow> nat \<Rightarrow> byte list" where
  "to_be 0 v = []"
| "to_be (Suc n) v = of_nat (v div 256 ^ n) # to_be n v"

subsection \<open>Message kinds and sizes\<close>

text \<open>
  \<^verbatim>\<open>get_message_size\<close>: the switch over the codes of namespace \<^verbatim>\<open>msg_type\<close>, each case
  returning the \<^verbatim>\<open>sizeof\<close> of its packed struct (the value its \<^verbatim>\<open>static_assert\<close> fixes), and
  \<^verbatim>\<open>default\<close> returning 0.
\<close>

definition get_message_size :: "byte \<Rightarrow> nat" where
  "get_message_size msg_type =
     (if msg_type = 0x53 then 12       \<comment> \<open>'S' SystemEvent\<close>
      else if msg_type = 0x52 then 39  \<comment> \<open>'R' StockDirectory\<close>
      else if msg_type = 0x48 then 25  \<comment> \<open>'H' StockTradingAction\<close>
      else if msg_type = 0x59 then 20  \<comment> \<open>'Y' RegSHORestriction\<close>
      else if msg_type = 0x4C then 26  \<comment> \<open>'L' MarketParticipantPosition\<close>
      else if msg_type = 0x56 then 35  \<comment> \<open>'V' MWCBDecline\<close>
      else if msg_type = 0x57 then 12  \<comment> \<open>'W' MWCBStatus\<close>
      else if msg_type = 0x4B then 28  \<comment> \<open>'K' IPOQuotingPeriod\<close>
      else if msg_type = 0x4A then 35  \<comment> \<open>'J' LULDAuctionCollar\<close>
      else if msg_type = 0x68 then 21  \<comment> \<open>'h' OperationalHalt\<close>
      else if msg_type = 0x41 then 36  \<comment> \<open>'A' AddOrder\<close>
      else if msg_type = 0x46 then 40  \<comment> \<open>'F' AddOrderMPID\<close>
      else if msg_type = 0x45 then 31  \<comment> \<open>'E' OrderExecuted\<close>
      else if msg_type = 0x43 then 36  \<comment> \<open>'C' OrderExecutedWithPrice\<close>
      else if msg_type = 0x58 then 23  \<comment> \<open>'X' OrderCancel\<close>
      else if msg_type = 0x44 then 19  \<comment> \<open>'D' OrderDelete\<close>
      else if msg_type = 0x55 then 35  \<comment> \<open>'U' OrderReplace\<close>
      else if msg_type = 0x50 then 44  \<comment> \<open>'P' Trade\<close>
      else if msg_type = 0x51 then 40  \<comment> \<open>'Q' CrossTrade\<close>
      else if msg_type = 0x42 then 19  \<comment> \<open>'B' BrokenTrade\<close>
      else if msg_type = 0x49 then 50  \<comment> \<open>'I' NOII\<close>
      else if msg_type = 0x4E then 20  \<comment> \<open>'N' RPII\<close>
      else 0)"

text \<open>
  The message-kind table as the specification states it (section 4.2): first-byte code
  and exact size in bytes. It is compared with \<open>get_message_size\<close> below.
\<close>

definition kind_table :: "(byte \<times> nat) list" where
  "kind_table =
    [(0x53, 12), (0x52, 39), (0x48, 25), (0x59, 20), (0x4C, 26), (0x56, 35),
     (0x57, 12), (0x4B, 28), (0x4A, 35), (0x68, 21), (0x41, 36), (0x46, 40),
     (0x45, 31), (0x43, 36), (0x58, 23), (0x44, 19), (0x55, 35), (0x50, 44),
     (0x51, 40), (0x42, 19), (0x49, 50), (0x4E, 20)]"

subsection \<open>Parser state\<close>

record Stats =
  total_messages :: "64 word"
  add_orders :: "64 word"
  order_executed :: "64 word"
  order_deleted :: "64 word"
  order_cancelled :: "64 word"
  order_replaced :: "64 word"
  trades :: "64 word"
  other_messages :: "64 word"
  unknown_messages :: "64 word"

text \<open>
  A call of one of the eight callbacks, with the arguments it receives: the bytes of the
  struct the pointer addresses, the timestamp, and the converted price and the quantity
  where the callback takes them. \<open>Price\<close> is \<^verbatim>\<open>int64_t\<close>: a 64-bit word read with \<open>sint\<close>.
\<close>

datatype parser_call =
    AddOrderCall "byte list" "64 word" "64 word" "32 word"
  | AddOrderMPIDCall "byte list" "64 word" "64 word" "32 word"
  | OrderExecutedCall "byte list" "64 word"
  | OrderExecutedWithPriceCall "byte list" "64 word" "64 word"
  | OrderCancelCall "byte list" "64 word"
  | OrderDeleteCall "byte list" "64 word"
  | OrderReplaceCall "byte list" "64 word" "64 word" "32 word"
  | TradeCall "byte list" "64 word" "64 word" "32 word"

text \<open>
  The parser: its statistics, for each callback slot whether a function object is
  installed, and the calls made so far (what the outside observes of the callbacks).
\<close>

record Parser =
  stats :: Stats
  add_order_cb :: bool
  add_order_mpid_cb :: bool
  order_executed_cb :: bool
  order_executed_with_price_cb :: bool
  order_cancel_cb :: bool
  order_delete_cb :: bool
  order_replace_cb :: bool
  trade_cb :: bool
  calls :: "parser_call list"

definition new_stats :: Stats where
  "new_stats = \<lparr> total_messages = 0, add_orders = 0, order_executed = 0, order_deleted = 0,
     order_cancelled = 0, order_replaced = 0, trades = 0, other_messages = 0,
     unknown_messages = 0 \<rparr>"

definition new_parser :: Parser where
  "new_parser = \<lparr> stats = new_stats, add_order_cb = False, add_order_mpid_cb = False,
     order_executed_cb = False, order_executed_with_price_cb = False,
     order_cancel_cb = False, order_delete_cb = False, order_replace_cb = False,
     trade_cb = False, calls = [] \<rparr>"

text \<open>A field of a packed struct: \<open>n\<close> bytes at offset \<open>off\<close>.\<close>

definition field :: "nat \<Rightarrow> nat \<Rightarrow> byte list \<Rightarrow> byte list" where
  "field off n msg = take n (drop off msg)"

text \<open>\<^verbatim>\<open>static_cast<Price>(itch_price) * 100\<close>\<close>

definition convert_price :: "32 word \<Rightarrow> 64 word" where
  "convert_price itch_price = ucast itch_price * 100"

text \<open>
  The per-kind handlers. Each counts its message and, when its callback is installed,
  calls it. Offsets in the packed structs: the timestamp is at 5 in all of them;
  \<^verbatim>\<open>AddOrder\<close>, \<^verbatim>\<open>AddOrderMPID\<close> and \<^verbatim>\<open>Trade\<close> have \<open>shares\<close> at 20 and \<open>price\<close> at 32;
  \<^verbatim>\<open>OrderExecutedWithPrice\<close> has \<open>execution_price\<close> at 32; \<^verbatim>\<open>OrderReplace\<close> has \<open>shares\<close>
  at 27 and \<open>price\<close> at 31.
\<close>

definition parse_add_order :: "Parser \<Rightarrow> byte list \<Rightarrow> Parser" where
  "parse_add_order p msg =
     (let p1 = p\<lparr> stats := (stats p)\<lparr> add_orders := add_orders (stats p) + 1 \<rparr> \<rparr>
      in if add_order_cb p1
         then p1\<lparr> calls := calls p1 @
                [AddOrderCall msg (read_be48 (field 5 6 msg))
                   (convert_price (read_be32 (field 32 4 msg))) (read_be32 (field 20 4 msg))] \<rparr>
         else p1)"

definition parse_add_order_mpid :: "Parser \<Rightarrow> byte list \<Rightarrow> Parser" where
  "parse_add_order_mpid p msg =
     (let p1 = p\<lparr> stats := (stats p)\<lparr> add_orders := add_orders (stats p) + 1 \<rparr> \<rparr>
      in if add_order_mpid_cb p1
         then p1\<lparr> calls := calls p1 @
                [AddOrderMPIDCall msg (read_be48 (field 5 6 msg))
                   (convert_price (read_be32 (field 32 4 msg))) (read_be32 (field 20 4 msg))] \<rparr>
         else p1)"

definition parse_order_executed :: "Parser \<Rightarrow> byte list \<Rightarrow> Parser" where
  "parse_order_executed p msg =
     (let p1 = p\<lparr> stats := (stats p)\<lparr> order_executed := order_executed (stats p) + 1 \<rparr> \<rparr>
      in if order_executed_cb p1
         then p1\<lparr> calls := calls p1 @ [OrderExecutedCall msg (read_be48 (field 5 6 msg))] \<rparr>
         else p1)"

definition parse_order_executed_with_price :: "Parser \<Rightarrow> byte list \<Rightarrow> Parser" where
  "parse_order_executed_with_price p msg =
     (let p1 = p\<lparr> stats := (stats p)\<lparr> order_executed := order_executed (stats p) + 1 \<rparr> \<rparr>
      in if order_executed_with_price_cb p1
         then p1\<lparr> calls := calls p1 @
                [OrderExecutedWithPriceCall msg (read_be48 (field 5 6 msg))
                   (convert_price (read_be32 (field 32 4 msg)))] \<rparr>
         else p1)"

definition parse_order_cancel :: "Parser \<Rightarrow> byte list \<Rightarrow> Parser" where
  "parse_order_cancel p msg =
     (let p1 = p\<lparr> stats := (stats p)\<lparr> order_cancelled := order_cancelled (stats p) + 1 \<rparr> \<rparr>
      in if order_cancel_cb p1
         then p1\<lparr> calls := calls p1 @ [OrderCancelCall msg (read_be48 (field 5 6 msg))] \<rparr>
         else p1)"

definition parse_order_delete :: "Parser \<Rightarrow> byte list \<Rightarrow> Parser" where
  "parse_order_delete p msg =
     (let p1 = p\<lparr> stats := (stats p)\<lparr> order_deleted := order_deleted (stats p) + 1 \<rparr> \<rparr>
      in if order_delete_cb p1
         then p1\<lparr> calls := calls p1 @ [OrderDeleteCall msg (read_be48 (field 5 6 msg))] \<rparr>
         else p1)"

definition parse_order_replace :: "Parser \<Rightarrow> byte list \<Rightarrow> Parser" where
  "parse_order_replace p msg =
     (let p1 = p\<lparr> stats := (stats p)\<lparr> order_replaced := order_replaced (stats p) + 1 \<rparr> \<rparr>
      in if order_replace_cb p1
         then p1\<lparr> calls := calls p1 @
                [OrderReplaceCall msg (read_be48 (field 5 6 msg))
                   (convert_price (read_be32 (field 31 4 msg))) (read_be32 (field 27 4 msg))] \<rparr>
         else p1)"

definition parse_trade :: "Parser \<Rightarrow> byte list \<Rightarrow> Parser" where
  "parse_trade p msg =
     (let p1 = p\<lparr> stats := (stats p)\<lparr> trades := trades (stats p) + 1 \<rparr> \<rparr>
      in if trade_cb p1
         then p1\<lparr> calls := calls p1 @
                [TradeCall msg (read_be48 (field 5 6 msg))
                   (convert_price (read_be32 (field 32 4 msg))) (read_be32 (field 20 4 msg))] \<rparr>
         else p1)"

text \<open>The codes of the 14 kinds that are counted in \<open>other_messages\<close> and not processed.\<close>

definition non_order_kinds :: "byte list" where
  "non_order_kinds =
     [0x53, 0x52, 0x48, 0x59, 0x4C, 0x56, 0x57, 0x4B, 0x4A, 0x68, 0x51, 0x42, 0x49, 0x4E]"

text \<open>
  \<^verbatim>\<open>parse_message\<close>: the number of bytes consumed (0 on error) and the parser afterwards.
  The two early returns come before the switch, so they leave the parser as it was. The
  struct pointer handed to a handler addresses \<open>expected_size\<close> bytes of the buffer.
\<close>

definition parse_message :: "Parser \<Rightarrow> byte list \<Rightarrow> nat \<times> Parser" where
  "parse_message p data =
     (let len = length data in
      if len < 1 then (0, p)
      else
        let msg_type = data ! 0;
            expected_size = get_message_size msg_type
        in
          if expected_size = 0 then (0, p)
          else if len < expected_size then (0, p)
          else
            let msg = take expected_size data;
                p1 = (if msg_type = 0x41 then parse_add_order p msg
                      else if msg_type = 0x46 then parse_add_order_mpid p msg
                      else if msg_type = 0x45 then parse_order_executed p msg
                      else if msg_type = 0x43 then parse_order_executed_with_price p msg
                      else if msg_type = 0x58 then parse_order_cancel p msg
                      else if msg_type = 0x44 then parse_order_delete p msg
                      else if msg_type = 0x55 then parse_order_replace p msg
                      else if msg_type = 0x50 then parse_trade p msg
                      else if msg_type \<in> set non_order_kinds
                      then p\<lparr> stats := (stats p)\<lparr> other_messages := other_messages (stats p) + 1 \<rparr> \<rparr>
                      else p\<lparr> stats := (stats p)\<lparr> unknown_messages := unknown_messages (stats p) + 1 \<rparr> \<rparr>)
            in (expected_size,
                p1\<lparr> stats := (stats p1)\<lparr> total_messages := total_messages (stats p1) + 1 \<rparr> \<rparr>))"

subsection \<open>Normalized messages (include/common/types.hpp)\<close>

datatype Side = Buy | Sell

datatype MessageType =
    MT_Unknown | MT_AddOrder | MT_AddOrderMPID | MT_OrderExecuted
  | MT_OrderExecutedWithPrice | MT_OrderCancel | MT_OrderDelete | MT_OrderReplace
  | MT_Trade | MT_CrossTrade | MT_BrokenTrade | MT_SystemEvent | MT_StockDirectory
  | MT_StockTradingAction | MT_RegSHO | MT_MarketParticipantPosition | MT_MWCB
  | MT_IPOQuotingPeriod | MT_LULD | MT_OperationalHalt

record NormalizedMessage =
  type :: MessageType
  timestamp :: "64 word"
  order_ref :: "64 word"
  stock :: "byte list"
  side :: Side
  price :: "64 word"
  quantity :: "32 word"
  executed_quantity :: "32 word"
  new_order_ref :: "64 word"

text \<open>The default constructor of \<^verbatim>\<open>NormalizedMessage\<close>.\<close>

definition default_message :: NormalizedMessage where
  "default_message = \<lparr> type = MT_Unknown, timestamp = 0, order_ref = 0,
     stock = replicate 8 0, side = Buy, price = 0, quantity = 0, executed_quantity = 0,
     new_order_ref = 0 \<rparr>"

text \<open>\<^verbatim>\<open>Parser::normalize_add_order\<close> (\<open>0x42\<close> is \<^verbatim>\<open>'B'\<close>).\<close>

definition normalize_add_order :: "byte list \<Rightarrow> NormalizedMessage" where
  "normalize_add_order msg =
     default_message\<lparr>
       type := MT_AddOrder,
       timestamp := read_be48 (field 5 6 msg),
       order_ref := read_be64 (field 11 8 msg),
       stock := field 24 8 msg,
       side := (if msg ! 19 = 0x42 then Buy else Sell),
       price := convert_price (read_be32 (field 32 4 msg)),
       quantity := read_be32 (field 20 4 msg) \<rparr>"

text \<open>
  The add-order callback that \<^verbatim>\<open>PacketHandler::setup_parser_callbacks\<close> installs
  (include/dpdk/packet_handler.hpp): the record it pushes to the ring, from the arguments
  of the call.
\<close>

definition handler_add_order ::
    "byte list \<Rightarrow> 64 word \<Rightarrow> 64 word \<Rightarrow> 32 word \<Rightarrow> NormalizedMessage" where
  "handler_add_order msg ts price' qty =
     default_message\<lparr>
       type := MT_AddOrder,
       timestamp := ts,
       order_ref := read_be64 (field 11 8 msg),
       stock := field 24 8 msg,
       side := (if msg ! 19 = 0x42 then Buy else Sell),
       price := price',
       quantity := qty \<rparr>"

text \<open>
  The AddOrder message the tests build (tests/test_parser.cpp): a zeroed struct with the
  fields stored in network byte order.
\<close>

definition side_char :: "Side \<Rightarrow> byte" where
  "side_char s = (case s of Buy \<Rightarrow> 0x42 | Sell \<Rightarrow> 0x53)"

definition build_add_order ::
    "16 word \<Rightarrow> 16 word \<Rightarrow> 64 word \<Rightarrow> 64 word \<Rightarrow> Side \<Rightarrow> 32 word \<Rightarrow> byte list \<Rightarrow> 32 word
      \<Rightarrow> byte list" where
  "build_add_order locate tracking ts ref s shares stk prc =
     [0x41] @ to_be 2 (unat locate) @ to_be 2 (unat tracking) @ to_be 6 (unat ts) @
     to_be 8 (unat ref) @ [side_char s] @ to_be 4 (unat shares) @ stk @ to_be 4 (unat prc)"

text \<open>\<^verbatim>\<open>"MSFT    "\<close>\<close>

definition MSFT :: "byte list" where
  "MSFT = [0x4D, 0x53, 0x46, 0x54, 0x20, 0x20, 0x20, 0x20]"

section \<open>MoldUDP64 session layer (include/moldudp64/header.hpp, session.hpp)\<close>

record Header =
  session :: "byte list"
  sequence_number :: "64 word"
  message_count :: "16 word"

definition HEARTBEAT_SEQUENCE :: "64 word" where
  "HEARTBEAT_SEQUENCE = 0"

definition END_OF_SESSION :: "64 word" where
  "END_OF_SESSION = 0xFFFFFFFFFFFFFFFF"

text \<open>
  \<^verbatim>\<open>HeaderParser::parse\<close>: \<open>None\<close> is the \<^verbatim>\<open>false\<close> it returns for a buffer shorter than
  the 20-byte header.
\<close>

definition HeaderParser_parse :: "byte list \<Rightarrow> Header option" where
  "HeaderParser_parse data =
     (if length data < 20 then None
      else Some \<lparr> session = take 10 data,
                  sequence_number = read_be64 (drop 10 data),
                  message_count = read_be16 (drop 18 data) \<rparr>)"

definition is_heartbeat :: "Header \<Rightarrow> bool" where
  "is_heartbeat header =
     (sequence_number header = HEARTBEAT_SEQUENCE \<and> message_count header = 0)"

definition is_end_of_session :: "Header \<Rightarrow> bool" where
  "is_end_of_session header = (sequence_number header = END_OF_SESSION)"

record Gap =
  gap_start :: "64 word"
  gap_end :: "64 word"
  detected_at_ns :: "64 word"

datatype SessionState = Unknown | Active | Stale | EndOfSession | Error

text \<open>
  The session: the members of the class, for each of the two callbacks whether a
  function object is installed, and the calls made to them so far, in order. A call of
  the message callback is recorded with the bytes the pointer addresses (\<open>length\<close> bytes
  of the packet), the length and the sequence number.
\<close>

record Session =
  session_id :: "byte list"
  expected_sequence :: "64 word"
  state :: SessionState
  pending_gaps :: "Gap list"
  packets_received :: "64 word"
  messages_received :: "64 word"
  gaps_detected :: "64 word"
  heartbeats_received :: "64 word"
  gap_callback :: bool
  message_callback :: bool
  gap_calls :: "Gap list"
  message_calls :: "(byte list \<times> 16 word \<times> 64 word) list"

text \<open>The constructor, with its session identifier argument (ten zero bytes by default).\<close>

definition new_session :: "byte list \<Rightarrow> Session" where
  "new_session sid =
     \<lparr> session_id = sid, expected_sequence = 1, state = Unknown, pending_gaps = [],
       packets_received = 0, messages_received = 0, gaps_detected = 0,
       heartbeats_received = 0, gap_callback = False, message_callback = False,
       gap_calls = [], message_calls = [] \<rparr>"

definition set_gap_callback :: "Session \<Rightarrow> Session" where
  "set_gap_callback s = s\<lparr> gap_callback := True \<rparr>"

definition set_message_callback :: "Session \<Rightarrow> Session" where
  "set_message_callback s = s\<lparr> message_callback := True \<rparr>"

definition has_gaps :: "Session \<Rightarrow> bool" where
  "has_gaps s = (\<not> (pending_gaps s = []))"

definition is_healthy :: "Session \<Rightarrow> bool" where
  "is_healthy s = (state s = Active \<and> pending_gaps s = [])"

text \<open>
  \<^verbatim>\<open>check_gap_fill\<close>: the loop over the pending gaps, erasing or trimming each one in
  turn. The comparisons and the \<open>+ 1\<close>, \<open>- 1\<close> are those of \<^verbatim>\<open>uint64_t\<close>.
\<close>

fun check_gap_fill :: "64 word \<Rightarrow> 64 word \<Rightarrow> Gap list \<Rightarrow> Gap list" where
  "check_gap_fill start end' [] = []"
| "check_gap_fill start end' (it # rest) =
     (if start \<le> gap_start it \<and> end' \<ge> gap_end it
      then check_gap_fill start end' rest
      else if start \<le> gap_start it \<and> end' \<ge> gap_start it
      then (let it' = it\<lparr> gap_start := end' + 1 \<rparr>
            in if gap_start it' > gap_end it' then check_gap_fill start end' rest
               else it' # check_gap_fill start end' rest)
      else if start \<le> gap_end it \<and> end' \<ge> gap_end it
      then (let it' = it\<lparr> gap_end := start - 1 \<rparr>
            in if gap_start it' > gap_end it' then check_gap_fill start end' rest
               else it' # check_gap_fill start end' rest)
      else it # check_gap_fill start end' rest)"

text \<open>
  The message loop of \<open>process_packet\<close>, \<^verbatim>\<open>for (uint16_t i = 0; i < message_count; ++i)\<close>,
  by recursion on the number of iterations left. \<open>offset\<close> and \<open>len\<close> are \<^verbatim>\<open>size_t\<close>; the
  offset never exceeds the buffer length by more than \<open>2 + 65535\<close>, so the sums do not wrap
  and are natural numbers here. The two \<^verbatim>\<open>break\<close>s end the loop with the session as it
  is.
\<close>

fun dispatch_messages :: "nat \<Rightarrow> byte list \<Rightarrow> nat \<Rightarrow> 64 word \<Rightarrow> Session \<Rightarrow> Session" where
  "dispatch_messages 0 data offset current_seq s = s"
| "dispatch_messages (Suc n) data offset current_seq s =
     (if offset + 2 > length data then s
      else
        let msg_len = read_be16 (drop offset data);
            offset' = offset + 2
        in if offset' + unat msg_len > length data then s
           else dispatch_messages n data (offset' + unat msg_len) (current_seq + 1)
                  (s\<lparr> message_calls := message_calls s @
                         [(take (unat msg_len) (drop offset' data), msg_len, current_seq)],
                      messages_received := messages_received s + 1 \<rparr>))"

text \<open>
  \<open>process_packet\<close> is one function in the source; its body is modelled block by block,
  each block a function from the session before it to the session after it.

  The session check (\<^verbatim>\<open>// Check session ID (first packet establishes it)\<close>): it either
  lets the packet through (\<open>Inr\<close>) or sets the state to \<open>Error\<close> and makes
  \<open>process_packet\<close> return false (\<open>Inl\<close>).
\<close>

definition session_check :: "Header \<Rightarrow> Session \<Rightarrow> Session + Session" where
  "session_check header s =
     (if state s = Unknown
      then Inr (s\<lparr> session_id := session header, state := Active \<rparr>)
      else if session_id s \<noteq> session header
      then Inl (s\<lparr> state := Error \<rparr>)
      else Inr s)"

text \<open>
  The gap check (\<^verbatim>\<open>// Check for gaps\<close>): a sequence number above the expected one
  records a gap, one below it is tried as a gap fill.
\<close>

definition gap_check :: "Header \<Rightarrow> Session \<Rightarrow> Session" where
  "gap_check header s =
     (if sequence_number header > expected_sequence s
      then
        let gap = \<lparr> gap_start = expected_sequence s,
                    gap_end = sequence_number header - 1,
                    detected_at_ns = 0 \<rparr>;
            sg = s\<lparr> pending_gaps := pending_gaps s @ [gap],
                    gaps_detected := gaps_detected s + 1,
                    state := Stale \<rparr>
        in if gap_callback sg
           then sg\<lparr> gap_calls := gap_calls sg @ [gap] \<rparr>
           else sg
      else if sequence_number header < expected_sequence s
      then s\<lparr> pending_gaps :=
                check_gap_fill (sequence_number header)
                  (sequence_number header + ucast (message_count header) - 1)
                  (pending_gaps s) \<rparr>
      else s)"

text \<open>
  The messages (\<^verbatim>\<open>// Process messages in the packet\<close>): dispatched to the message
  callback when one is installed, only counted otherwise. The first block starts at
  \<^verbatim>\<open>get_messages_offset()\<close>, which is 20.
\<close>

definition process_messages :: "Header \<Rightarrow> byte list \<Rightarrow> Session \<Rightarrow> Session" where
  "process_messages header data s =
     (if message_callback s
      then dispatch_messages (unat (message_count header)) data 20 (sequence_number header) s
      else s\<lparr> messages_received := messages_received s + ucast (message_count header) \<rparr>)"

text \<open>\<^verbatim>\<open>// Update expected sequence number\<close>\<close>

definition update_expected :: "Header \<Rightarrow> Session \<Rightarrow> Session" where
  "update_expected header s =
     (let next_expected = sequence_number header + ucast (message_count header)
      in if next_expected > expected_sequence s
         then s\<lparr> expected_sequence := next_expected \<rparr>
         else s)"

text \<open>\<^verbatim>\<open>// Check if all gaps are filled\<close>\<close>

definition gaps_filled_check :: "Session \<Rightarrow> Session" where
  "gaps_filled_check s =
     (if state s = Stale \<and> pending_gaps s = [] then s\<lparr> state := Active \<rparr> else s)"

text \<open>\<^verbatim>\<open>process_packet\<close>: the returned flag and the session afterwards.\<close>

definition process_packet :: "Session \<Rightarrow> byte list \<Rightarrow> bool \<times> Session" where
  "process_packet s data =
     (case HeaderParser_parse data of
        None \<Rightarrow> (False, s)
      | Some header \<Rightarrow>
          (case session_check header (s\<lparr> packets_received := packets_received s + 1 \<rparr>) of
             Inl failed \<Rightarrow> (False, failed)
           | Inr s2 \<Rightarrow>
               if is_heartbeat header
               then (True, s2\<lparr> heartbeats_received := heartbeats_received s2 + 1 \<rparr>)
               else if is_end_of_session header
               then (True, s2\<lparr> state := EndOfSession \<rparr>)
               else (True,
                     gaps_filled_check
                       (update_expected header
                          (process_messages header data (gap_check header s2))))))"

text \<open>Feeding a list of packets to \<open>process_packet\<close>, one after the other.\<close>

definition process_packets :: "Session \<Rightarrow> byte list list \<Rightarrow> Session" where
  "process_packets s pkts = foldl (\<lambda>s' pkt. snd (process_packet s' pkt)) s pkts"

text \<open>
  The sessions a program can get to: a constructed session, with callbacks installed or
  not, after any number of calls of \<open>process_packet\<close>.
\<close>

inductive session_reachable :: "Session \<Rightarrow> bool" where
  reach_new_session: "session_reachable (new_session sid)"
| reach_set_gap_callback: "session_reachable s \<Longrightarrow> session_reachable (set_gap_callback s)"
| reach_set_message_callback:
    "session_reachable s \<Longrightarrow> session_reachable (set_message_callback s)"
| reach_process_packet:
    "session_reachable s \<Longrightarrow> session_reachable (snd (process_packet s data))"

text \<open>
  The packets of the tests (\<^verbatim>\<open>create_moldudp_packet\<close> of tests/test_moldudp64.cpp): the
  header with the session identifier, the sequence number and the message count, then
  each message behind its two-byte big-endian length.
\<close>

definition message_block :: "byte list \<Rightarrow> byte list" where
  "message_block msg = to_be 2 (length msg) @ msg"

definition create_moldudp_packet ::
    "byte list \<Rightarrow> 64 word \<Rightarrow> 16 word \<Rightarrow> byte list list \<Rightarrow> byte list" where
  "create_moldudp_packet sid seq cnt messages =
     sid @ to_be 8 (unat seq) @ to_be 2 (unat cnt) @ concat (map message_block messages)"

text \<open>
  A packet is well formed when its header counts the messages it carries; every message
  fits the 16-bit length field.
\<close>

definition fits16 :: "byte list list \<Rightarrow> bool" where
  "fits16 messages = (\<forall>m \<in> set messages. length m < 65536)"

text \<open>
  What is left of a block cut off by the end of the packet: fewer than two bytes, or a
  length field that announces more bytes than follow.
\<close>

definition truncated_block :: "byte list \<Rightarrow> bool" where
  "truncated_block rest = (length rest < 2 \<or> length rest < 2 + unat (read_be16 rest))"

text \<open>The calls of the message callback for messages numbered from \<open>seq\<close> on.\<close>

fun calls_from :: "64 word \<Rightarrow> byte list list \<Rightarrow> (byte list \<times> 16 word \<times> 64 word) list" where
  "calls_from seq [] = []"
| "calls_from seq (m # ms) = (m, of_nat (length m), seq) # calls_from (seq + 1) ms"

text \<open>\<^verbatim>\<open>"NASDAQ    "\<close>, the session identifier of the tests.\<close>

definition NASDAQ :: "byte list" where
  "NASDAQ = [0x4E, 0x41, 0x53, 0x44, 0x41, 0x51, 0x20, 0x20, 0x20, 0x20]"

text \<open>
  The invariant that links the state to the gap list: a stale session has a pending gap,
  and a session that is \<open>Unknown\<close> or \<open>Active\<close> has none.
\<close>

definition session_inv :: "Session \<Rightarrow> bool" where
  "session_inv s = ((state s = Stale \<longrightarrow> pending_gaps s \<noteq> []) \<and>
     (state s = Unknown \<or> state s = Active \<longrightarrow> pending_gaps s = []))"

subsection \<open>Sessions and packets of the tests\<close>

text \<open>
  The session of the tests: default-constructed, then both callbacks installed. The
  packets are those of tests/test_moldudp64.cpp (a three-byte message under sequence
  numbers 1 and 5, a heartbeat, an end-of-session packet), a packet of another session
  (\<^verbatim>\<open>"OTHER     "\<close>), a packet that announces two messages and is cut inside the second
  block, and a packet whose sequence number and count add up beyond \<open>2 ^ 64\<close>.
\<close>

definition OTHER :: "byte list" where
  "OTHER = [0x4F, 0x54, 0x48, 0x45, 0x52, 0x20, 0x20, 0x20, 0x20, 0x20]"

definition test_session :: Session where
  "test_session = set_message_callback (set_gap_callback (new_session (replicate 10 0)))"

definition packet_1 :: "byte list" where
  "packet_1 = create_moldudp_packet NASDAQ 1 1 [[0x41, 0x00, 0x01]]"

definition packet_5 :: "byte list" where
  "packet_5 = create_moldudp_packet NASDAQ 5 1 [[0x41, 0x00, 0x01]]"

definition heartbeat_packet :: "byte list" where
  "heartbeat_packet = create_moldudp_packet NASDAQ 0 0 []"

definition end_packet :: "byte list" where
  "end_packet = create_moldudp_packet NASDAQ END_OF_SESSION 0 []"

definition other_packet :: "byte list" where
  "other_packet = create_moldudp_packet OTHER 2 1 [[0x41, 0x00, 0x01]]"

definition truncated_packet :: "byte list" where
  "truncated_packet = create_moldudp_packet NASDAQ 1 2 [[0x41, 0x00, 0x01]] @ [0x00, 0x03, 0x09]"

definition wrap_packet :: "byte list" where
  "wrap_packet = create_moldudp_packet NASDAQ 0xFFFFFFFFFFFFFFFE 3 [[0x41], [0x42], [0x43]]"

text \<open>The test session after \<open>packet_1\<close>, and after \<open>packet_1\<close> and \<open>packet_5\<close>.\<close>

definition session_1 :: Session where
  "session_1 =
     \<lparr> session_id = NASDAQ, expected_sequence = 2, state = Active, pending_gaps = [],
       packets_received = 1, messages_received = 1, gaps_detected = 0,
       heartbeats_received = 0, gap_callback = True, message_callback = True,
       gap_calls = [], message_calls = [([0x41, 0x00, 0x01], 3, 1)] \<rparr>"

definition session_5 :: Session where
  "session_5 =
     \<lparr> session_id = NASDAQ, expected_sequence = 6, state = Stale,
       pending_gaps = [\<lparr> gap_start = 2, gap_end = 4, detected_at_ns = 0 \<rparr>],
       packets_received = 2, messages_received = 2, gaps_detected = 1,
       heartbeats_received = 0, gap_callback = True, message_callback = True,
       gap_calls = [\<lparr> gap_start = 2, gap_end = 4, detected_at_ns = 0 \<rparr>],
       message_calls = [([0x41, 0x00, 0x01], 3, 1), ([0x41, 0x00, 0x01], 3, 5)] \<rparr>"

subsection \<open>Properties of the ring\<close>

lemma increment_mod: "increment (2 ^ k) i = (i + 1) mod 2 ^ k"
proof -
  have "(2::nat) ^ k - 1 = mask k"
    by (simp add: mask_eq_exp_minus_1)
  then show ?thesis
    unfolding increment_def by (simp only: flip: take_bit_eq_mask) (simp add: take_bit_eq_mod)
qed

lemma increment_less: "increment (2 ^ k) i < 2 ^ k"
  by (simp add: increment_mod)

lemma ring_inv_new: "ring_inv (2 ^ k) (new_ring (2 ^ k) z)"
  by (simp add: ring_inv_def new_ring_def)

lemma ring_inv_push: "ring_inv (2 ^ k) rb \<Longrightarrow> ring_inv (2 ^ k) (snd (try_push (2 ^ k) x rb))"
  by (simp add: ring_inv_def try_push_def Let_def increment_less)

lemma ring_inv_pop: "ring_inv (2 ^ k) rb \<Longrightarrow> ring_inv (2 ^ k) (snd (try_pop (2 ^ k) rb))"
  by (simp add: ring_inv_def try_pop_def Let_def increment_less)

lemma reachable_inv: "reachable (2 ^ k) z rb \<Longrightarrow> ring_inv (2 ^ k) rb"
  by (induction rule: reachable.induct) (simp_all add: ring_inv_new ring_inv_push ring_inv_pop)

lemma size_rb_bound: "ring_inv (2 ^ k) rb \<Longrightarrow> size_rb (2 ^ k) rb \<le> 2 ^ k - 1"
  by (auto simp: ring_inv_def size_rb_def)

lemma size_rb_empty: "empty rb \<Longrightarrow> size_rb n rb = 0"
  by (simp add: empty_def size_rb_def)

text \<open>A push into a ring that is not full succeeds and makes one more record live.\<close>

lemma try_push_ok:
  assumes "ring_inv (2 ^ k) rb" and "size_rb (2 ^ k) rb < 2 ^ k - 1"
  shows "fst (try_push (2 ^ k) x rb) = True"
    and "size_rb (2 ^ k) (snd (try_push (2 ^ k) x rb)) = Suc (size_rb (2 ^ k) rb)"
    and "tail (snd (try_push (2 ^ k) x rb)) = tail rb"
  using assms
  by (auto simp: ring_inv_def size_rb_def try_push_def Let_def increment_mod mod_Suc)

lemma try_push_full:
  assumes "ring_inv (2 ^ k) rb" and "size_rb (2 ^ k) rb = 2 ^ k - 1"
  shows "try_push (2 ^ k) x rb = (False, rb)"
  using assms
  by (auto simp: ring_inv_def size_rb_def try_push_def Let_def increment_mod mod_Suc
      split: if_splits)

text \<open>A pop from a ring that is not empty returns the slot at the tail and frees it.\<close>

lemma try_pop_ok:
  assumes "ring_inv (2 ^ k) rb" and "0 < size_rb (2 ^ k) rb"
  shows "fst (try_pop (2 ^ k) rb) = Some (buffer rb ! tail rb)"
    and "Suc (size_rb (2 ^ k) (snd (try_pop (2 ^ k) rb))) = size_rb (2 ^ k) rb"
  using assms
  by (auto simp: ring_inv_def size_rb_def try_pop_def Let_def increment_mod mod_Suc
      split: if_splits)

lemma push_all_ok:
  "ring_inv (2 ^ k) rb \<Longrightarrow> size_rb (2 ^ k) rb + length xs \<le> 2 ^ k - 1 \<Longrightarrow>
     fst (push_all (2 ^ k) xs rb) = replicate (length xs) True \<and>
     ring_inv (2 ^ k) (snd (push_all (2 ^ k) xs rb)) \<and>
     size_rb (2 ^ k) (snd (push_all (2 ^ k) xs rb)) = size_rb (2 ^ k) rb + length xs"
proof (induction xs arbitrary: rb)
  case Nil
  then show ?case by simp
next
  case (Cons x xs)
  let ?rb = "snd (try_push (2 ^ k) x rb)"
  from Cons.prems have small: "size_rb (2 ^ k) rb < 2 ^ k - 1" by simp
  have ok: "fst (try_push (2 ^ k) x rb) = True"
    and sz: "size_rb (2 ^ k) ?rb = Suc (size_rb (2 ^ k) rb)"
    using try_push_ok [OF Cons.prems(1) small] by simp_all
  have inv: "ring_inv (2 ^ k) ?rb"
    using Cons.prems(1) by (rule ring_inv_push)
  have "size_rb (2 ^ k) ?rb + length xs \<le> 2 ^ k - 1"
    using sz Cons.prems(2) by simp
  from Cons.IH [OF inv this] ok sz show ?case
    by (simp add: split_beta)
qed

text \<open>
  Claim C5. For a ring of capacity \<open>N = 2 ^ k\<close>: starting from an empty ring (any reachable
  ring with \<open>head = tail\<close>, the new ring among them), \<open>N - 1\<close> calls of \<open>try_push\<close> in a row
  all succeed and the next one fails; if a \<open>try_pop\<close> then succeeds (it does as soon as
  \<open>N > 1\<close>), the next \<open>try_push\<close> succeeds again; and in every reachable ring \<open>size()\<close>, the
  number of live records, is at most \<open>N - 1\<close>.
\<close>

theorem ring_capacity_minus_one:
  assumes "reachable (2 ^ k) z rb0" and "empty rb0" and "length xs = 2 ^ k - 1"
  shows "fst (push_all (2 ^ k) xs rb0) = replicate (2 ^ k - 1) True
       \<and> fst (try_push (2 ^ k) y (snd (push_all (2 ^ k) xs rb0))) = False
       \<and> (0 < k \<longrightarrow> fst (try_pop (2 ^ k) (snd (push_all (2 ^ k) xs rb0))) \<noteq> None)
       \<and> (fst (try_pop (2 ^ k) (snd (push_all (2 ^ k) xs rb0))) \<noteq> None \<longrightarrow>
            fst (try_push (2 ^ k) y'
              (snd (try_pop (2 ^ k) (snd (push_all (2 ^ k) xs rb0))))) = True)
       \<and> (\<forall>rb. reachable (2 ^ k) z rb \<longrightarrow> size_rb (2 ^ k) rb \<le> 2 ^ k - 1)"
proof -
  let ?N = "(2::nat) ^ k"
  let ?full = "snd (push_all ?N xs rb0)"
  have inv0: "ring_inv ?N rb0"
    using assms(1) by (rule reachable_inv)
  have sz0: "size_rb ?N rb0 = 0"
    using assms(2) by (rule size_rb_empty)
  have "size_rb ?N rb0 + length xs \<le> ?N - 1"
    using sz0 assms(3) by simp
  from push_all_ok [OF inv0 this]
  have flags: "fst (push_all ?N xs rb0) = replicate (?N - 1) True"
    and invF: "ring_inv ?N ?full"
    and szF: "size_rb ?N ?full = ?N - 1"
    using sz0 assms(3) by simp_all
  have fails: "fst (try_push ?N y ?full) = False"
    using try_push_full [OF invF szF] by simp
  have pops: "fst (try_pop ?N ?full) \<noteq> None" if "0 < k"
  proof -
    from that have "(2::nat) ^ 1 \<le> 2 ^ k"
      by (intro power_increasing) simp_all
    then have "0 < size_rb ?N ?full"
      using szF by simp
    from try_pop_ok(1) [OF invF this] show ?thesis by simp
  qed
  have again: "fst (try_push ?N y' (snd (try_pop ?N ?full))) = True"
    if "fst (try_pop ?N ?full) \<noteq> None"
  proof -
    have pos: "0 < size_rb ?N ?full"
    proof (rule ccontr)
      assume "\<not> 0 < size_rb ?N ?full"
      then have "head ?full = tail ?full"
        using invF by (auto simp: size_rb_def ring_inv_def split: if_splits)
      then have "fst (try_pop ?N ?full) = None"
        by (simp add: try_pop_def)
      with that show False by simp
    qed
    have "size_rb ?N (snd (try_pop ?N ?full)) < ?N - 1"
      using try_pop_ok(2) [OF invF pos] szF by simp
    with ring_inv_pop [OF invF] show ?thesis
      by (rule try_push_ok(1))
  qed
  have live: "size_rb ?N rb \<le> ?N - 1" if "reachable ?N z rb" for rb
    using that by (intro size_rb_bound reachable_inv)
  from flags fails pops again live show ?thesis
    by blast
qed

lemma reachable_push_all:
  "reachable n z rb \<Longrightarrow> reachable n z (snd (push_all n xs rb))"
proof (induction xs arbitrary: rb)
  case Nil
  then show ?case by simp
next
  case (Cons x xs)
  from Cons.prems have "reachable n z (snd (try_push n x rb))"
    by (rule reach_push)
  from Cons.IH [OF this] show ?case
    by (simp add: split_beta)
qed

theorem ring_capacity_minus_one_witness:
  "reachable (2 ^ 2) (0::nat) (new_ring (2 ^ 2) 0) \<and> empty (new_ring (2 ^ 2) (0::nat))
   \<and> length [1, 2, 3 :: nat] = 2 ^ 2 - 1
   \<and> fst (push_all (2 ^ 2) [1, 2, 3 :: nat] (new_ring (2 ^ 2) 0)) = replicate (2 ^ 2 - 1) True
   \<and> fst (try_push (2 ^ 2) (9::nat) (snd (push_all (2 ^ 2) [1, 2, 3] (new_ring (2 ^ 2) 0)))) = False
   \<and> fst (try_pop (2 ^ 2) (snd (push_all (2 ^ 2) [1, 2, 3 :: nat] (new_ring (2 ^ 2) 0)))) = Some 1
   \<and> fst (try_push (2 ^ 2) (8::nat)
        (snd (try_pop (2 ^ 2) (snd (push_all (2 ^ 2) [1, 2, 3] (new_ring (2 ^ 2) 0)))))) = True
   \<and> reachable (2 ^ 2) (0::nat) (snd (push_all (2 ^ 2) [1, 2, 3] (new_ring (2 ^ 2) 0)))
   \<and> size_rb (2 ^ 2) (snd (push_all (2 ^ 2) [1, 2, 3 :: nat] (new_ring (2 ^ 2) 0))) \<le> 2 ^ 2 - 1"
proof -
  have r: "reachable (2 ^ 2) (0::nat) (new_ring (2 ^ 2) 0)"
    by (rule reach_new)
  have e: "empty (new_ring (2 ^ 2) (0::nat))"
    by (simp add: empty_def new_ring_def)
  have l: "length [1, 2, 3 :: nat] = 2 ^ 2 - 1"
    by simp
  have p: "fst (try_pop (2 ^ 2) (snd (push_all (2 ^ 2) [1, 2, 3 :: nat] (new_ring (2 ^ 2) 0)))) = Some 1"
    by code_simp
  from p have p': "fst (try_pop (2 ^ 2) (snd (push_all (2 ^ 2) [1, 2, 3 :: nat] (new_ring (2 ^ 2) 0)))) \<noteq> None"
    by (simp only: option.distinct not_False_eq_True)
  have f: "reachable (2 ^ 2) (0::nat) (snd (push_all (2 ^ 2) [1, 2, 3] (new_ring (2 ^ 2) 0)))"
    using r by (rule reachable_push_all)
  from ring_capacity_minus_one [OF r e l, of 9 8] r e l p p' f show ?thesis
    by blast
qed

text \<open>
  Claim C10. A failed ring operation changes nothing: when \<open>try_push\<close> returns false
  the ring afterwards is the ring before (head, tail and every slot), and likewise when
  \<open>try_pop\<close> returns \<open>nullopt\<close>.
\<close>

theorem failed_ring_operation_unchanged:
  "(fst (try_push Capacity item rb) = False \<longrightarrow>
      snd (try_push Capacity item rb) = rb
      \<and> head (snd (try_push Capacity item rb)) = head rb
      \<and> tail (snd (try_push Capacity item rb)) = tail rb
      \<and> buffer (snd (try_push Capacity item rb)) = buffer rb)
   \<and> (fst (try_pop Capacity rb) = None \<longrightarrow>
      snd (try_pop Capacity rb) = rb
      \<and> head (snd (try_pop Capacity rb)) = head rb
      \<and> tail (snd (try_pop Capacity rb)) = tail rb
      \<and> buffer (snd (try_pop Capacity rb)) = buffer rb)"
  by (simp add: try_push_def try_pop_def Let_def)

theorem failed_ring_operation_unchanged_witness:
  "fst (try_push 2 (7::nat) \<lparr> buffer = [5, 0], head = 1, tail = 0 \<rparr>) = False
   \<and> snd (try_push 2 (7::nat) \<lparr> buffer = [5, 0], head = 1, tail = 0 \<rparr>)
       = \<lparr> buffer = [5, 0], head = 1, tail = 0 \<rparr>
   \<and> fst (try_pop 2 \<lparr> buffer = [5, 0::nat], head = 1, tail = 1 \<rparr>) = None
   \<and> snd (try_pop 2 \<lparr> buffer = [5, 0::nat], head = 1, tail = 1 \<rparr>)
       = \<lparr> buffer = [5, 0], head = 1, tail = 1 \<rparr>"
proof -
  have a: "fst (try_push 2 (7::nat) \<lparr> buffer = [5, 0], head = 1, tail = 0 \<rparr>) = False"
    by (simp add: try_push_def increment_def)
  have b: "fst (try_pop 2 \<lparr> buffer = [5, 0::nat], head = 1, tail = 1 \<rparr>) = None"
    by (simp add: try_pop_def)
  from a b
    failed_ring_operation_unchanged [of 2 "7::nat" "\<lparr> buffer = [5, 0], head = 1, tail = 0 \<rparr>"]
    failed_ring_operation_unchanged [of 2 "7::nat" "\<lparr> buffer = [5, 0], head = 1, tail = 1 \<rparr>"]
  show ?thesis
    by simp
qed

subsection \<open>Properties of the parser\<close>

lemma get_message_size_table:
  "(K, S) \<in> set kind_table \<Longrightarrow> get_message_size K = S \<and> 0 < S"
  by (auto simp: kind_table_def get_message_size_def)

lemma get_message_size_unknown:
  "K \<notin> fst ` set kind_table \<Longrightarrow> get_message_size K = 0"
  by (simp add: kind_table_def get_message_size_def)

text \<open>
  Claim C2. For every code \<open>K\<close> of the kind table with size \<open>S\<close> and every buffer whose
  first byte is \<open>K\<close>: \<open>parse_message\<close> reports \<open>S\<close> bytes consumed when the buffer holds at
  least \<open>S\<close> bytes, and reports 0 and leaves the parser, its statistics included, as it
  was when the buffer holds at least one byte and fewer than \<open>S\<close>.
\<close>

theorem parse_message_kind_table:
  assumes "(K, S) \<in> set kind_table" and "1 \<le> length data" and "data ! 0 = K"
  shows "(S \<le> length data \<longrightarrow> fst (parse_message p data) = S)
       \<and> (length data < S \<longrightarrow> fst (parse_message p data) = 0
            \<and> snd (parse_message p data) = p
            \<and> stats (snd (parse_message p data)) = stats p)"
proof -
  from get_message_size_table [OF assms(1)]
  have sz: "get_message_size K = S" and pos: "0 < S" by simp_all
  show ?thesis
    using sz pos assms(2,3) by (simp add: parse_message_def Let_def)
qed

theorem parse_message_kind_table_witness:
  "(0x41, 36) \<in> set kind_table
   \<and> fst (parse_message new_parser (0x41 # replicate 35 0)) = 36
   \<and> fst (parse_message new_parser (0x41 # replicate 9 0)) = 0
   \<and> stats (snd (parse_message new_parser (0x41 # replicate 9 0))) = stats new_parser"
proof -
  have k: "(0x41, 36) \<in> set kind_table"
    by (simp add: kind_table_def)
  from k parse_message_kind_table [OF k, of "0x41 # replicate 35 0" new_parser]
    parse_message_kind_table [OF k, of "0x41 # replicate 9 0" new_parser]
  show ?thesis
    by simp
qed

text \<open>
  The \<^verbatim>\<open>default\<close> label of the switch in \<open>parse_message\<close> cannot be reached: a code that
  is none of the switch's case labels has size 0 and has returned before the switch.
\<close>

lemma default_case_dead:
  "t \<noteq> 0x41 \<Longrightarrow> t \<noteq> 0x46 \<Longrightarrow> t \<noteq> 0x45 \<Longrightarrow> t \<noteq> 0x43 \<Longrightarrow> t \<noteq> 0x58 \<Longrightarrow> t \<noteq> 0x44 \<Longrightarrow>
   t \<noteq> 0x55 \<Longrightarrow> t \<noteq> 0x50 \<Longrightarrow> t \<notin> set non_order_kinds \<Longrightarrow> get_message_size t = 0"
  by (simp add: get_message_size_def non_order_kinds_def)

lemma handlers_keep_unknown:
  "unknown_messages (stats (parse_add_order p msg)) = unknown_messages (stats p)"
  "unknown_messages (stats (parse_add_order_mpid p msg)) = unknown_messages (stats p)"
  "unknown_messages (stats (parse_order_executed p msg)) = unknown_messages (stats p)"
  "unknown_messages (stats (parse_order_executed_with_price p msg)) = unknown_messages (stats p)"
  "unknown_messages (stats (parse_order_cancel p msg)) = unknown_messages (stats p)"
  "unknown_messages (stats (parse_order_delete p msg)) = unknown_messages (stats p)"
  "unknown_messages (stats (parse_order_replace p msg)) = unknown_messages (stats p)"
  "unknown_messages (stats (parse_trade p msg)) = unknown_messages (stats p)"
  by (simp_all add: parse_add_order_def parse_add_order_mpid_def
     parse_order_executed_def parse_order_executed_with_price_def parse_order_cancel_def
     parse_order_delete_def parse_order_replace_def parse_trade_def Let_def)

text \<open>So no call of \<open>parse_message\<close> ever changes \<open>unknown_messages\<close>.\<close>

lemma unknown_messages_never_incremented:
  "unknown_messages (stats (snd (parse_message p data))) = unknown_messages (stats p)"
proof (cases "length data < 1 \<or> get_message_size (data ! 0) = 0
    \<or> length data < get_message_size (data ! 0)")
  case True
  then show ?thesis by (auto simp: parse_message_def Let_def)
next
  case False
  then have nz: "get_message_size (data ! 0) \<noteq> 0" by simp
  have dead: "data ! 0 \<in> set non_order_kinds"
    if "data ! 0 \<noteq> 0x41" "data ! 0 \<noteq> 0x46" "data ! 0 \<noteq> 0x45" "data ! 0 \<noteq> 0x43"
       "data ! 0 \<noteq> 0x58" "data ! 0 \<noteq> 0x44" "data ! 0 \<noteq> 0x55" "data ! 0 \<noteq> 0x50"
  proof (rule ccontr)
    assume "data ! 0 \<notin> set non_order_kinds"
    with that have "get_message_size (data ! 0) = 0"
      by (intro default_case_dead)
    with nz show False by simp
  qed
  show ?thesis
    using False dead
    by (simp add: parse_message_def Let_def handlers_keep_unknown)
qed

text \<open>
  Claim C7 says that a buffer whose first byte is no code of the table makes
  \<open>parse_message\<close> return 0 and add one to \<open>unknown_messages\<close>. The code returns 0, but it
  returns before the switch whose \<^verbatim>\<open>default\<close> label holds the increment: for the code
  \<^verbatim>\<open>'Z'\<close> (\<open>0x5A\<close>) of tests/test_parser.cpp, whatever follows it, the parser comes back
  unchanged and \<open>unknown_messages\<close> keeps its value.
\<close>

theorem unknown_kind_not_counted:
  "0x5A \<notin> fst ` set kind_table
   \<and> parse_message p (0x5A # rest) = (0, p)
   \<and> unknown_messages (stats (snd (parse_message p (0x5A # rest)))) = unknown_messages (stats p)
   \<and> unknown_messages (stats (snd (parse_message p (0x5A # rest)))) \<noteq> unknown_messages (stats p) + 1"
proof -
  have k: "(0x5A :: byte) \<notin> fst ` set kind_table"
    by (simp add: kind_table_def)
  have "get_message_size 0x5A = 0"
    using k by (rule get_message_size_unknown)
  then have "parse_message p (0x5A # rest) = (0, p)"
    by (simp add: parse_message_def Let_def)
  with k show ?thesis by simp
qed

subsection \<open>The AddOrder round trip\<close>

lemma length_to_be [simp]: "length (to_be n v) = n"
  by (induction n) simp_all

lemma be_val_to_be: "be_val (to_be n v) = v mod 256 ^ n"
proof (induction n)
  case 0
  then show ?case by simp
next
  case (Suc n)
  have b: "unat (of_nat (v div 256 ^ n) :: byte) = v div 256 ^ n mod 256"
    by (simp add: unat_of_nat)
  have "v mod 256 ^ Suc n = v mod (256 ^ n * 256)"
    by (simp add: mult.commute)
  also have "\<dots> = 256 ^ n * (v div 256 ^ n mod 256) + v mod 256 ^ n"
    by (rule mod_mult2_eq)
  finally show ?case
    using Suc b by simp
qed

lemma read_be16_to_be: "read_be16 (to_be 2 (unat w) @ rest) = w"
proof -
  have "unat w < 256 ^ 2"
    using unsigned_less [of w] by simp
  then show ?thesis
    by (simp add: read_be16_def be_val_to_be)
qed

lemma read_be32_to_be: "read_be32 (to_be 4 (unat w) @ rest) = w"
proof -
  have "unat w < 256 ^ 4"
    using unsigned_less [of w] by simp
  then show ?thesis
    by (simp add: read_be32_def be_val_to_be)
qed

lemma read_be64_to_be: "read_be64 (to_be 8 (unat w) @ rest) = w"
proof -
  have "unat w < 256 ^ 8"
    using unsigned_less [of w] by simp
  then show ?thesis
    by (simp add: read_be64_def be_val_to_be)
qed

text \<open>The price conversion does not overflow: the 64-bit result is \<open>100\<close> times the wire value.\<close>

lemma sint_convert_price: "sint (convert_price p) = uint p * 100"
proof -
  have lt: "uint p < 2 ^ 32"
    using uint_bounded [of p] by simp
  have u: "uint (ucast p :: 64 word) = uint p"
    by (simp add: uint_up_ucast is_up)
  have "uint p * 100 < 2 ^ 64"
    using lt by simp
  then have m: "uint (convert_price p) = uint p * 100"
    unfolding convert_price_def using u
    by (simp add: uint_word_ariths)
  have "sint (convert_price p) = signed_take_bit 63 (uint (convert_price p))"
    by (simp add: sint_uint)
  also have "\<dots> = uint p * 100"
  proof -
    have "- (2 ^ 63) \<le> (0::int)" by simp
    also have "0 \<le> uint p * 100" by simp
    finally have lo: "- (2 ^ 63) \<le> uint p * 100" .
    from lt have hi: "uint p * 100 < 2 ^ 63" by simp
    from lo hi show ?thesis
      unfolding m by (rule signed_take_bit_int_eq_self)
  qed
  finally show ?thesis .
qed

lemma length_build_add_order:
  "length stk = 8 \<Longrightarrow> length (build_add_order l t ts r s q stk pr) = 36"
  by (simp add: build_add_order_def)

lemma build_add_order_fields:
  assumes "length stk = 8"
  shows "build_add_order l t ts r s q stk pr ! 0 = 0x41"
    and "read_be64 (field 11 8 (build_add_order l t ts r s q stk pr)) = r"
    and "build_add_order l t ts r s q stk pr ! 19 = side_char s"
    and "read_be32 (field 20 4 (build_add_order l t ts r s q stk pr)) = q"
    and "field 24 8 (build_add_order l t ts r s q stk pr) = stk"
    and "read_be32 (field 32 4 (build_add_order l t ts r s q stk pr)) = pr"
proof -
  show "build_add_order l t ts r s q stk pr ! 0 = 0x41"
    by (simp add: build_add_order_def)
  have "field 11 8 (build_add_order l t ts r s q stk pr) = to_be 8 (unat r)"
    by (simp add: build_add_order_def field_def)
  then show "read_be64 (field 11 8 (build_add_order l t ts r s q stk pr)) = r"
    using read_be64_to_be [of r "[]"] by simp
  show "build_add_order l t ts r s q stk pr ! 19 = side_char s"
    by (simp add: build_add_order_def nth_append)
  have "field 20 4 (build_add_order l t ts r s q stk pr) = to_be 4 (unat q)"
    by (simp add: build_add_order_def field_def)
  then show "read_be32 (field 20 4 (build_add_order l t ts r s q stk pr)) = q"
    using read_be32_to_be [of q "[]"] by simp
  show "field 24 8 (build_add_order l t ts r s q stk pr) = stk"
    using assms by (simp add: build_add_order_def field_def)
  have "field 32 4 (build_add_order l t ts r s q stk pr) = to_be 4 (unat pr)"
    using assms by (simp add: build_add_order_def field_def)
  then show "read_be32 (field 32 4 (build_add_order l t ts r s q stk pr)) = pr"
    using read_be32_to_be [of pr "[]"] by simp
qed

lemma side_of_side_char: "(if side_char s = 0x42 then Buy else Sell) = s"
  by (cases s) (simp_all add: side_char_def)

text \<open>
  Claim C9. An AddOrder message built with order reference \<open>r\<close>, side \<open>s\<close>, wire price
  \<open>pr\<close>, quantity \<open>q\<close> and an 8-byte stock symbol (\<^verbatim>\<open>"MSFT    "\<close> among them), fed to
  \<open>parse_message\<close> of a parser with the add-order callback installed, is consumed whole
  (36 bytes) and makes exactly one call of the callback, with price \<open>convert_price pr\<close> and
  quantity \<open>q\<close>; the normalized record the packet handler's callback builds from that
  call, and the one \<open>normalize_add_order\<close> builds from the message, have order reference
  \<open>r\<close>, side \<open>s\<close>, quantity \<open>q\<close>, the stock symbol unchanged, and as price the signed 64-bit
  value \<open>pr * 100\<close>.
\<close>

theorem add_order_round_trip:
  fixes l t :: "16 word" and ts r :: "64 word" and s :: Side and q pr :: "32 word"
    and stk :: "byte list" and p :: Parser
  assumes cb: "add_order_cb p" and stk: "length stk = 8"
  defines "msg \<equiv> build_add_order l t ts r s q stk pr"
  shows "fst (parse_message p msg) = 36
       \<and> calls (snd (parse_message p msg)) =
           calls p @ [AddOrderCall msg (read_be48 (field 5 6 msg)) (convert_price pr) q]
       \<and> order_ref (handler_add_order msg (read_be48 (field 5 6 msg)) (convert_price pr) q) = r
       \<and> side (handler_add_order msg (read_be48 (field 5 6 msg)) (convert_price pr) q) = s
       \<and> sint (price (handler_add_order msg (read_be48 (field 5 6 msg)) (convert_price pr) q))
           = uint pr * 100
       \<and> quantity (handler_add_order msg (read_be48 (field 5 6 msg)) (convert_price pr) q) = q
       \<and> stock (handler_add_order msg (read_be48 (field 5 6 msg)) (convert_price pr) q) = stk
       \<and> order_ref (normalize_add_order msg) = r
       \<and> side (normalize_add_order msg) = s
       \<and> sint (price (normalize_add_order msg)) = uint pr * 100
       \<and> quantity (normalize_add_order msg) = q
       \<and> stock (normalize_add_order msg) = stk"
proof -
  note f = build_add_order_fields [OF stk, of l t ts r s q pr, folded msg_def]
  have len: "length msg = 36"
    unfolding msg_def using stk by (rule length_build_add_order)
  have sz: "get_message_size 0x41 = 36"
    by (simp add: get_message_size_def)
  have pm: "parse_message p msg =
      (36, (parse_add_order p msg)\<lparr> stats := (stats (parse_add_order p msg))
          \<lparr> total_messages := total_messages (stats (parse_add_order p msg)) + 1 \<rparr> \<rparr>)"
    using len f(1) sz by (simp add: parse_message_def Let_def)
  have c: "calls (parse_add_order p msg) =
      calls p @ [AddOrderCall msg (read_be48 (field 5 6 msg)) (convert_price pr) q]"
    using cb f(4,6) by (simp add: parse_add_order_def Let_def)
  have h: "handler_add_order msg tsv (convert_price pr) q =
      default_message\<lparr> type := MT_AddOrder, timestamp := tsv, order_ref := r, stock := stk,
        side := s, price := convert_price pr, quantity := q \<rparr>" for tsv
    using f by (simp add: handler_add_order_def side_of_side_char)
  have n: "normalize_add_order msg =
      default_message\<lparr> type := MT_AddOrder, timestamp := read_be48 (field 5 6 msg),
        order_ref := r, stock := stk, side := s, price := convert_price pr, quantity := q \<rparr>"
    using f by (simp add: normalize_add_order_def side_of_side_char)
  show ?thesis
    unfolding pm h n using c by (simp add: sint_convert_price)
qed

theorem add_order_round_trip_witness:
  "add_order_cb (new_parser\<lparr> add_order_cb := True \<rparr>) \<and> length MSFT = 8
   \<and> fst (parse_message (new_parser\<lparr> add_order_cb := True \<rparr>)
        (build_add_order 1 0 34200000000000 12345 Sell 500 MSFT 2500000)) = 36
   \<and> order_ref (normalize_add_order
        (build_add_order 1 0 34200000000000 12345 Sell 500 MSFT 2500000)) = 12345
   \<and> side (normalize_add_order
        (build_add_order 1 0 34200000000000 12345 Sell 500 MSFT 2500000)) = Sell
   \<and> sint (price (normalize_add_order
        (build_add_order 1 0 34200000000000 12345 Sell 500 MSFT 2500000))) = 250000000
   \<and> quantity (normalize_add_order
        (build_add_order 1 0 34200000000000 12345 Sell 500 MSFT 2500000)) = 500
   \<and> stock (normalize_add_order
        (build_add_order 1 0 34200000000000 12345 Sell 500 MSFT 2500000)) = MSFT"
proof -
  have a: "add_order_cb (new_parser\<lparr> add_order_cb := True \<rparr>)"
    by simp
  have b: "length MSFT = 8"
    by (simp add: MSFT_def)
  from a b add_order_round_trip [OF a b, where l = 1 and t = 0 and ts = 34200000000000
      and r = 12345 and s = Sell and q = 500 and pr = 2500000]
  show ?thesis
    by simp
qed

section \<open>Properties of the session layer\<close>

subsection \<open>Header and message blocks\<close>

lemma read_be16_length:
  "n < 65536 \<Longrightarrow> unat (read_be16 (to_be 2 n @ rest)) = n"
    "n < 65536 \<Longrightarrow> read_be16 (to_be 2 n @ rest) = of_nat n"
  by (simp_all add: read_be16_def be_val_to_be unat_of_nat)

lemma HeaderParser_parse_packet:
  assumes "length sid = 10"
  shows "HeaderParser_parse (sid @ to_be 8 (unat seq) @ to_be 2 (unat cnt) @ body) =
     Some \<lparr> session = sid, sequence_number = seq, message_count = cnt \<rparr>"
proof -
  have "drop 18 (sid @ to_be 8 (unat seq) @ to_be 2 (unat cnt) @ body) = to_be 2 (unat cnt) @ body"
    using assms by simp
  moreover have "drop 10 (sid @ to_be 8 (unat seq) @ to_be 2 (unat cnt) @ body)
      = to_be 8 (unat seq) @ to_be 2 (unat cnt) @ body"
    using assms by simp
  ultimately show ?thesis
    using assms by (simp add: HeaderParser_parse_def read_be64_to_be read_be16_to_be)
qed

lemma parse_create:
  "length sid = 10 \<Longrightarrow> HeaderParser_parse (create_moldudp_packet sid seq cnt ms @ rest) =
     Some \<lparr> session = sid, sequence_number = seq, message_count = cnt \<rparr>"
  using HeaderParser_parse_packet [of sid seq cnt "concat (map message_block ms) @ rest"]
  by (simp add: create_moldudp_packet_def)

text \<open>The message loop touches nothing but the call log and the message counter.\<close>

lemma dispatch_messages_frame:
  "dispatch_messages n data offset seq s =
     s\<lparr> message_calls := message_calls (dispatch_messages n data offset seq s),
        messages_received := messages_received (dispatch_messages n data offset seq s) \<rparr>"
  by (induction n data offset seq s rule: dispatch_messages.induct)
     (auto simp: Let_def)

lemma dispatch_messages_keeps [simp]:
  "state (dispatch_messages n data offset seq s) = state s"
  "pending_gaps (dispatch_messages n data offset seq s) = pending_gaps s"
  "expected_sequence (dispatch_messages n data offset seq s) = expected_sequence s"
  "session_id (dispatch_messages n data offset seq s) = session_id s"
  "packets_received (dispatch_messages n data offset seq s) = packets_received s"
  "gaps_detected (dispatch_messages n data offset seq s) = gaps_detected s"
  "heartbeats_received (dispatch_messages n data offset seq s) = heartbeats_received s"
  "gap_callback (dispatch_messages n data offset seq s) = gap_callback s"
  "message_callback (dispatch_messages n data offset seq s) = message_callback s"
  "gap_calls (dispatch_messages n data offset seq s) = gap_calls s"
  by (subst dispatch_messages_frame, simp)+

text \<open>
  The loop over complete blocks: each block is one call of the callback, with the
  message, its length and the next sequence number; a block cut off by the end of the
  packet ends the loop.
\<close>

lemma dispatch_truncated:
  assumes "truncated_block (drop offset data)" and "offset \<le> length data"
  shows "dispatch_messages n data offset seq s = s"
proof (cases n)
  case 0
  then show ?thesis by simp
next
  case (Suc k)
  show ?thesis
    using assms unfolding Suc truncated_block_def
    by (auto simp: Let_def)
qed

lemma length_message_block [simp]: "length (message_block m) = 2 + length m"
  by (simp add: message_block_def)

lemma dispatch_blocks:
  assumes "fits16 ms" and "drop offset data = concat (map message_block ms) @ rest"
    and "offset \<le> length data" and "length ms \<le> n"
  shows "dispatch_messages n data offset seq s =
         dispatch_messages (n - length ms) data
           (offset + length (concat (map message_block ms))) (seq + of_nat (length ms))
           (s\<lparr> message_calls := message_calls s @ calls_from seq ms,
               messages_received := messages_received s + of_nat (length ms) \<rparr>)"
  using assms
proof (induction ms arbitrary: n offset seq s)
  case Nil
  then show ?case by simp
next
  case (Cons m ms)
  from Cons.prems(4) obtain k where n: "n = Suc k" and k: "length ms \<le> k"
    by (cases n) simp_all
  from Cons.prems(1) have m: "length m < 65536" and fits: "fits16 ms"
    by (simp_all add: fits16_def)
  let ?rest = "concat (map message_block ms) @ rest"
  have d0: "drop offset data = to_be 2 (length m) @ m @ ?rest"
    using Cons.prems(2) by (simp add: message_block_def [of m])
  have "length (drop offset data) = 2 + length m + length ?rest"
    unfolding d0 by simp
  then have len: "offset + 2 + length m + length ?rest = length data"
    using Cons.prems(3) by simp
  have d2: "drop (offset + 2) data = m @ ?rest"
  proof -
    have "drop (offset + 2) data = drop 2 (drop offset data)"
      by (simp add: add.commute)
    then show ?thesis unfolding d0 by simp
  qed
  have d3: "drop (offset + 2 + length m) data = ?rest"
  proof -
    have "drop (offset + 2 + length m) data = drop (length m) (drop (offset + 2) data)"
      by (simp add: add.commute)
    then show ?thesis unfolding d2 by simp
  qed
  have r: "read_be16 (drop offset data) = of_nat (length m)"
    and u: "unat (read_be16 (drop offset data)) = length m"
    unfolding d0 using m by (simp_all add: read_be16_length unat_of_nat)
  let ?s = "s\<lparr> message_calls := message_calls s @ [(m, of_nat (length m), seq)],
                messages_received := messages_received s + 1 \<rparr>"
  have step: "dispatch_messages n data offset seq s =
      dispatch_messages k data (offset + 2 + length m) (seq + 1) ?s"
  proof -
    have "take (length m) (drop (Suc (Suc offset)) data) = m"
      using d2 by simp
    moreover have "unat (of_nat (length m) :: 16 word) = length m"
      using m by (simp add: unat_of_nat)
    ultimately show ?thesis
      unfolding n using len by (simp add: Let_def r)
  qed
  have le: "offset + 2 + length m \<le> length data"
    using len by simp
  note IH = Cons.IH [OF fits d3 le k, of "seq + 1" ?s]
  have "dispatch_messages n data offset seq s =
      dispatch_messages (k - length ms) data
        (offset + 2 + length m + length (concat (map message_block ms)))
        (seq + 1 + of_nat (length ms))
        (?s\<lparr> message_calls := message_calls ?s @ calls_from (seq + 1) ms,
             messages_received := messages_received ?s + of_nat (length ms) \<rparr>)"
    using step IH by simp
  also have "\<dots> =
      dispatch_messages (n - length (m # ms)) data
        (offset + length (concat (map message_block (m # ms)))) (seq + of_nat (length (m # ms)))
        (s\<lparr> message_calls := message_calls s @ calls_from seq (m # ms),
            messages_received := messages_received s + of_nat (length (m # ms)) \<rparr>)"
    by (simp add: n add.assoc)
  finally show ?case .
qed

lemma drop_packet_header:
  assumes "length sid = 10"
  shows "drop 20 (sid @ to_be 8 a @ to_be 2 b @ body) = body"
    and "length (sid @ to_be 8 a @ to_be 2 b @ body) = 20 + length body"
  using assms by simp_all

lemma dispatch_body:
  assumes sid: "length sid = 10" and fits: "fits16 ms" and le: "length ms \<le> n"
    and stop: "length ms = n \<or> truncated_block rest"
  shows "dispatch_messages n
           (sid @ to_be 8 a @ to_be 2 b @ concat (map message_block ms) @ rest) 20 seq s =
         s\<lparr> message_calls := message_calls s @ calls_from seq ms,
            messages_received := messages_received s + of_nat (length ms) \<rparr>"
proof -
  let ?data = "sid @ to_be 8 a @ to_be 2 b @ concat (map message_block ms) @ rest"
  let ?s = "s\<lparr> message_calls := message_calls s @ calls_from seq ms,
            messages_received := messages_received s + of_nat (length ms) \<rparr>"
  have d: "drop 20 ?data = concat (map message_block ms) @ rest"
    using sid by (rule drop_packet_header)
  have l: "20 \<le> length ?data"
    using sid by simp
  have step: "dispatch_messages n ?data 20 seq s =
      dispatch_messages (n - length ms) ?data (20 + length (concat (map message_block ms)))
        (seq + of_nat (length ms)) ?s"
    using fits d l le by (rule dispatch_blocks)
  from stop show ?thesis
  proof
    assume "length ms = n"
    then show ?thesis unfolding step by simp
  next
    assume t: "truncated_block rest"
    have "drop (20 + length (concat (map message_block ms))) ?data = rest"
      using sid by simp
    with t have "truncated_block (drop (20 + length (concat (map message_block ms))) ?data)"
      by simp
    moreover have "20 + length (concat (map message_block ms)) \<le> length ?data"
      using sid by simp
    ultimately show ?thesis
      unfolding step by (rule dispatch_truncated)
  qed
qed

lemma length_calls_from [simp]: "length (calls_from seq ms) = length ms"
  by (induction ms arbitrary: seq) simp_all

subsection \<open>The blocks of \<open>process_packet\<close>\<close>

lemma process_messages_keeps [simp]:
  "state (process_messages h data s) = state s"
  "pending_gaps (process_messages h data s) = pending_gaps s"
  "expected_sequence (process_messages h data s) = expected_sequence s"
  "session_id (process_messages h data s) = session_id s"
  "gap_calls (process_messages h data s) = gap_calls s"
  "gap_callback (process_messages h data s) = gap_callback s"
  "message_callback (process_messages h data s) = message_callback s"
  "heartbeats_received (process_messages h data s) = heartbeats_received s"
  by (simp_all add: process_messages_def)

lemma update_expected_keeps [simp]:
  "state (update_expected h s) = state s"
  "pending_gaps (update_expected h s) = pending_gaps s"
  "session_id (update_expected h s) = session_id s"
  "gap_calls (update_expected h s) = gap_calls s"
  "message_calls (update_expected h s) = message_calls s"
  "gap_callback (update_expected h s) = gap_callback s"
  "message_callback (update_expected h s) = message_callback s"
  "heartbeats_received (update_expected h s) = heartbeats_received s"
  by (simp_all add: update_expected_def Let_def)

lemma gaps_filled_check_keeps [simp]:
  "pending_gaps (gaps_filled_check s) = pending_gaps s"
  "expected_sequence (gaps_filled_check s) = expected_sequence s"
  "session_id (gaps_filled_check s) = session_id s"
  "gap_calls (gaps_filled_check s) = gap_calls s"
  "message_calls (gaps_filled_check s) = message_calls s"
  "gap_callback (gaps_filled_check s) = gap_callback s"
  "message_callback (gaps_filled_check s) = message_callback s"
  "heartbeats_received (gaps_filled_check s) = heartbeats_received s"
  by (simp_all add: gaps_filled_check_def)

text \<open>Arithmetic of sequence numbers (64 bits) and message counts (16 bits).\<close>

lemma unat_ucast_count: "unat (ucast (c :: 16 word) :: 64 word) = unat c"
proof -
  have "uint (ucast c :: 64 word) = uint c"
    by (simp add: uint_up_ucast is_up)
  then have "nat (uint (ucast c :: 64 word)) = nat (uint c)"
    by (rule arg_cong)
  then show ?thesis
    by (simp only: unat_eq_nat_uint)
qed

lemma ucast_of_nat_count: "n < 65536 \<Longrightarrow> (ucast (of_nat n :: 16 word) :: 64 word) = of_nat n"
proof -
  assume n: "n < 65536"
  have "unat (ucast (of_nat n :: 16 word) :: 64 word) = n"
    using n by (simp add: unat_ucast_count unat_of_nat)
  moreover have "unat (of_nat n :: 64 word) = n"
    using n by (simp add: unat_of_nat)
  ultimately show ?thesis
    by (simp add: word_unat_eq_iff)
qed

lemma unat_seq_plus_count:
  fixes seq :: "64 word" and cnt :: "16 word"
  assumes "unat seq + unat cnt < 2 ^ 64"
  shows "unat (seq + ucast cnt) = unat seq + unat cnt"
proof -
  have "unat seq + unat (ucast cnt :: 64 word) < 2 ^ LENGTH(64)"
    using assms by (simp add: unat_ucast_count)
  then have "unat (seq + ucast cnt) = unat seq + unat (ucast cnt :: 64 word)"
    by (simp only: unat_add_lem)
  then show ?thesis by (simp add: unat_ucast_count)
qed

lemma unat_END_OF_SESSION: "unat END_OF_SESSION = 2 ^ 64 - 1"
  by (simp add: END_OF_SESSION_def)

lemma unat_of_nat_64: "n < 2 ^ 64 \<Longrightarrow> unat (of_nat n :: 64 word) = n"
  by (simp add: unat_of_nat)

lemma unat_of_nat_16: "n < 65536 \<Longrightarrow> unat (of_nat n :: 16 word) = n"
  by (simp add: unat_of_nat)

text \<open>
  An in-order packet: the packet's sequence number is the expected one. The messages of
  the complete blocks are dispatched and \<open>expected_sequence\<close> moves on by the count of the
  header.
\<close>

lemma process_packet_in_order:
  fixes seq :: "64 word" and cnt :: "16 word"
  assumes sid: "length sid = 10"
    and sess: "state s = Unknown \<or> session_id s = sid"
    and cb: "message_callback s"
    and ord: "seq = expected_sequence s"
    and cnt: "cnt \<noteq> 0"
    and nowrap: "unat seq + unat cnt < 2 ^ 64"
    and fits: "fits16 ms" and le: "length ms \<le> unat cnt"
    and stop: "length ms = unat cnt \<or> truncated_block rest"
  shows "process_packet s
           (sid @ to_be 8 (unat seq) @ to_be 2 (unat cnt) @ concat (map message_block ms) @ rest) =
         (True, gaps_filled_check
            (s\<lparr> packets_received := packets_received s + 1,
                session_id := sid,
                state := (if state s = Unknown then Active else state s),
                message_calls := message_calls s @ calls_from seq ms,
                messages_received := messages_received s + of_nat (length ms),
                expected_sequence := seq + ucast cnt \<rparr>))"
proof -
  let ?data = "sid @ to_be 8 (unat seq) @ to_be 2 (unat cnt) @ concat (map message_block ms) @ rest"
  let ?h = "\<lparr> session = sid, sequence_number = seq, message_count = cnt \<rparr>"
  let ?s1 = "s\<lparr> packets_received := packets_received s + 1 \<rparr>"
  let ?s2 = "?s1\<lparr> session_id := sid, state := (if state s = Unknown then Active else state s) \<rparr>"
  have parse: "HeaderParser_parse ?data = Some ?h"
    using sid by (rule HeaderParser_parse_packet)
  have chk: "session_check ?h ?s1 = Inr ?s2"
    using sess by (auto simp: session_check_def)
  have nhb: "\<not> is_heartbeat ?h"
    using cnt by (simp add: is_heartbeat_def)
  have "0 < unat cnt"
    using cnt by (simp add: unat_gt_0)
  with nowrap have "unat seq < 2 ^ 64 - 1"
    by simp
  then have neos: "\<not> is_end_of_session ?h"
    by (auto simp: is_end_of_session_def unat_END_OF_SESSION)
  have gap: "gap_check ?h ?s2 = ?s2"
    using ord by (simp add: gap_check_def)
  have msgs: "process_messages ?h ?data ?s2 =
      ?s2\<lparr> message_calls := message_calls s @ calls_from seq ms,
           messages_received := messages_received s + of_nat (length ms) \<rparr>"
    using cb dispatch_body [OF sid fits le stop, of "unat seq" "unat cnt" seq ?s2]
    by (simp add: process_messages_def)
  have "unat (seq + ucast cnt) = unat seq + unat cnt"
    using nowrap by (rule unat_seq_plus_count)
  with \<open>0 < unat cnt\<close> have adv: "expected_sequence s < seq + ucast cnt"
    unfolding ord [symmetric] by (simp add: word_less_nat_alt)
  show ?thesis
    unfolding process_packet_def parse option.case chk sum.case
    using nhb neos adv
    by (simp add: gap msgs update_expected_def Let_def)
qed

text \<open>A packet above the expected sequence number: the gap is recorded and reported.\<close>

lemma process_packet_gap:
  fixes seq :: "64 word" and cnt :: "16 word"
  assumes sid: "length sid = 10"
    and known: "state s \<noteq> Unknown" and sess: "session_id s = sid"
    and cb: "message_callback s"
    and above: "expected_sequence s < seq"
    and neos: "seq \<noteq> END_OF_SESSION"
    and fits: "fits16 ms" and le: "length ms \<le> unat cnt"
    and stop: "length ms = unat cnt \<or> truncated_block rest"
  shows "process_packet s
           (sid @ to_be 8 (unat seq) @ to_be 2 (unat cnt) @ concat (map message_block ms) @ rest) =
         (True,
            s\<lparr> packets_received := packets_received s + 1,
               pending_gaps := pending_gaps s @
                 [\<lparr> gap_start = expected_sequence s, gap_end = seq - 1, detected_at_ns = 0 \<rparr>],
               gaps_detected := gaps_detected s + 1,
               state := Stale,
               gap_calls := (if gap_callback s
                 then gap_calls s @
                   [\<lparr> gap_start = expected_sequence s, gap_end = seq - 1, detected_at_ns = 0 \<rparr>]
                 else gap_calls s),
               message_calls := message_calls s @ calls_from seq ms,
               messages_received := messages_received s + of_nat (length ms),
               expected_sequence := (if expected_sequence s < seq + ucast cnt
                 then seq + ucast cnt else expected_sequence s) \<rparr>)"
proof -
  let ?data = "sid @ to_be 8 (unat seq) @ to_be 2 (unat cnt) @ concat (map message_block ms) @ rest"
  let ?h = "\<lparr> session = sid, sequence_number = seq, message_count = cnt \<rparr>"
  let ?s1 = "s\<lparr> packets_received := packets_received s + 1 \<rparr>"
  let ?gap = "\<lparr> gap_start = expected_sequence s, gap_end = seq - 1, detected_at_ns = 0 \<rparr>"
  let ?s3 = "?s1\<lparr> pending_gaps := pending_gaps s @ [?gap],
               gaps_detected := gaps_detected s + 1,
               state := Stale,
               gap_calls := (if gap_callback s then gap_calls s @ [?gap] else gap_calls s) \<rparr>"
  have parse: "HeaderParser_parse ?data = Some ?h"
    using sid by (rule HeaderParser_parse_packet)
  have chk: "session_check ?h ?s1 = Inr ?s1"
    using known sess by (simp add: session_check_def)
  have "seq \<noteq> 0"
    using above by (auto simp: word_less_nat_alt)
  then have nhb: "\<not> is_heartbeat ?h"
    by (simp add: is_heartbeat_def HEARTBEAT_SEQUENCE_def)
  have ne: "\<not> is_end_of_session ?h"
    using neos by (simp add: is_end_of_session_def)
  have gap: "gap_check ?h ?s1 = ?s3"
    using above by (simp add: gap_check_def Let_def)
  have msgs: "process_messages ?h ?data ?s3 =
      ?s3\<lparr> message_calls := message_calls s @ calls_from seq ms,
           messages_received := messages_received s + of_nat (length ms) \<rparr>"
    using cb dispatch_body [OF sid fits le stop, of "unat seq" "unat cnt" seq ?s3]
    by (simp add: process_messages_def)
  show ?thesis
    unfolding process_packet_def parse option.case chk sum.case
    using nhb ne
    by (simp add: gap msgs update_expected_def gaps_filled_check_def Let_def)
qed

text \<open>Heartbeats, end-of-session packets and packets of another session.\<close>

lemma process_packet_heartbeat:
  assumes "HeaderParser_parse data = Some h" and "is_heartbeat h"
    and "state s \<noteq> Unknown" and "session_id s = session h"
  shows "process_packet s data =
     (True, s\<lparr> packets_received := packets_received s + 1,
               heartbeats_received := heartbeats_received s + 1 \<rparr>)"
  using assms by (simp add: process_packet_def session_check_def)

lemma process_packet_first_heartbeat:
  assumes "HeaderParser_parse data = Some h" and "is_heartbeat h" and "state s = Unknown"
  shows "process_packet s data =
     (True, s\<lparr> packets_received := packets_received s + 1, session_id := session h,
               state := Active, heartbeats_received := heartbeats_received s + 1 \<rparr>)"
  using assms by (simp add: process_packet_def session_check_def)

lemma process_packet_end_of_session:
  assumes "HeaderParser_parse data = Some h" and "is_end_of_session h"
    and "state s \<noteq> Unknown" and "session_id s = session h"
  shows "process_packet s data =
     (True, s\<lparr> packets_received := packets_received s + 1, state := EndOfSession \<rparr>)"
proof -
  from assms(2) have "\<not> is_heartbeat h"
    by (simp add: is_heartbeat_def is_end_of_session_def HEARTBEAT_SEQUENCE_def
        END_OF_SESSION_def)
  with assms show ?thesis
    by (simp add: process_packet_def session_check_def)
qed

lemma process_packet_mismatch:
  assumes "HeaderParser_parse data = Some h"
    and "state s \<noteq> Unknown" and "session_id s \<noteq> session h"
  shows "process_packet s data =
     (False, s\<lparr> packets_received := packets_received s + 1, state := Error \<rparr>)"
  using assms by (simp add: process_packet_def session_check_def)

subsection \<open>The state and the gap list\<close>

lemma gap_check_inv:
  "session_inv s \<Longrightarrow> state s \<noteq> Unknown \<Longrightarrow>
     state (gap_check h s) \<noteq> Unknown \<and>
     (state (gap_check h s) = Active \<longrightarrow> pending_gaps (gap_check h s) = [])"
  by (auto simp: session_inv_def gap_check_def Let_def)

lemma finish_inv:
  assumes "state s \<noteq> Unknown" and "state s = Active \<longrightarrow> pending_gaps s = []"
  shows "session_inv (gaps_filled_check (update_expected h (process_messages h data s)))"
  using assms by (auto simp: session_inv_def gaps_filled_check_def)

lemma session_check_inv:
  "session_inv s \<Longrightarrow> session_check h s = Inl f \<Longrightarrow> session_inv f"
  "session_inv s \<Longrightarrow> session_check h s = Inr s2 \<Longrightarrow> session_inv s2 \<and> state s2 \<noteq> Unknown"
  by (auto simp: session_inv_def session_check_def split: if_splits)

lemma process_packet_inv:
  assumes "session_inv s"
  shows "session_inv (snd (process_packet s data))"
proof (cases "HeaderParser_parse data")
  case None
  then show ?thesis using assms by (simp add: process_packet_def)
next
  case (Some h)
  let ?s1 = "s\<lparr> packets_received := packets_received s + 1 \<rparr>"
  have i1: "session_inv ?s1" using assms by (simp add: session_inv_def)
  show ?thesis
  proof (cases "session_check h ?s1")
    case (Inl f)
    with session_check_inv(1) [OF i1 Inl] Some show ?thesis
      by (simp add: process_packet_def)
  next
    case (Inr s2)
    from session_check_inv(2) [OF i1 Inr] have i2: "session_inv s2" and nu: "state s2 \<noteq> Unknown"
      by simp_all
    have hb: "session_inv (s2\<lparr> heartbeats_received := heartbeats_received s2 + 1 \<rparr>)"
      using i2 by (simp add: session_inv_def)
    have eos: "session_inv (s2\<lparr> state := EndOfSession \<rparr>)"
      by (simp add: session_inv_def)
    from gap_check_inv [OF i2 nu, of h]
    have "session_inv (gaps_filled_check (update_expected h (process_messages h data (gap_check h s2))))"
      by (intro finish_inv) simp_all
    with hb eos Some Inr show ?thesis
      by (simp add: process_packet_def)
  qed
qed

lemma reachable_session_inv: "session_reachable s \<Longrightarrow> session_inv s"
proof (induction rule: session_reachable.induct)
  case (reach_new_session sid)
  show ?case by (simp add: session_inv_def new_session_def)
next
  case (reach_set_gap_callback s)
  then show ?case by (simp add: session_inv_def set_gap_callback_def)
next
  case (reach_set_message_callback s)
  then show ?case by (simp add: session_inv_def set_message_callback_def)
next
  case (reach_process_packet s data)
  then show ?case by (simp add: process_packet_inv)
qed

lemma reachable_process_packets:
  "session_reachable s \<Longrightarrow> session_reachable (process_packets s pkts)"
  unfolding process_packets_def
  by (induction pkts arbitrary: s) (simp_all add: reach_process_packet)

subsection \<open>Runs of the test packets\<close>

lemma length_NASDAQ: "length NASDAQ = 10"
  by (simp add: NASDAQ_def)

lemma fits16_test: "fits16 [[0x41, 0x00, 0x01]]"
  by (simp add: fits16_def)

lemma calls_from_test: "calls_from seq [[0x41, 0x00, 0x01]] = [([0x41, 0x00, 0x01], 3, seq)]"
  by simp

lemma run_packet_1: "process_packet test_session packet_1 = (True, session_1)"
proof -
  have "process_packet test_session
      (NASDAQ @ to_be 8 (unat (1 :: 64 word)) @ to_be 2 (unat (1 :: 16 word)) @
        concat (map message_block [[0x41, 0x00, 0x01]]) @ []) = (True, session_1)"
    by (subst process_packet_in_order)
       (simp_all add: length_NASDAQ fits16_test test_session_def new_session_def
          set_gap_callback_def set_message_callback_def gaps_filled_check_def session_1_def)
  then show ?thesis
    by (simp add: packet_1_def create_moldudp_packet_def)
qed

lemma run_packet_5: "process_packet session_1 packet_5 = (True, session_5)"
proof -
  have "process_packet session_1
      (NASDAQ @ to_be 8 (unat (5 :: 64 word)) @ to_be 2 (unat (1 :: 16 word)) @
        concat (map message_block [[0x41, 0x00, 0x01]]) @ []) = (True, session_5)"
    by (subst process_packet_gap)
       (simp_all add: length_NASDAQ fits16_test session_1_def session_5_def END_OF_SESSION_def)
  then show ?thesis
    by (simp add: packet_5_def create_moldudp_packet_def)
qed

lemma parse_packet_5:
  "HeaderParser_parse packet_5 = Some \<lparr> session = NASDAQ, sequence_number = 5, message_count = 1 \<rparr>"
  using parse_create [OF length_NASDAQ, of 5 1 "[[0x41, 0x00, 0x01]]" "[]"]
  by (simp add: packet_5_def)

lemma parse_end_packet:
  "HeaderParser_parse end_packet =
     Some \<lparr> session = NASDAQ, sequence_number = END_OF_SESSION, message_count = 0 \<rparr>"
  using parse_create [OF length_NASDAQ, of END_OF_SESSION 0 "[]" "[]"]
  by (simp add: end_packet_def)

lemma parse_heartbeat_packet:
  "HeaderParser_parse heartbeat_packet =
     Some \<lparr> session = NASDAQ, sequence_number = 0, message_count = 0 \<rparr>"
  using parse_create [OF length_NASDAQ, of 0 0 "[]" "[]"]
  by (simp add: heartbeat_packet_def)

lemma parse_other_packet:
  "HeaderParser_parse other_packet =
     Some \<lparr> session = OTHER, sequence_number = 2, message_count = 1 \<rparr>"
proof -
  have "length OTHER = 10" by (simp add: OTHER_def)
  from parse_create [OF this, of 2 1 "[[0x41, 0x00, 0x01]]" "[]"]
  show ?thesis by (simp add: other_packet_def)
qed

lemma run_end_after_1:
  "process_packet session_1 end_packet =
     (True, session_1\<lparr> packets_received := 2, state := EndOfSession \<rparr>)"
  by (subst process_packet_end_of_session [OF parse_end_packet])
     (simp_all add: is_end_of_session_def session_1_def)

lemma run_end_after_5:
  "process_packet session_5 end_packet =
     (True, session_5\<lparr> packets_received := 3, state := EndOfSession \<rparr>)"
  by (subst process_packet_end_of_session [OF parse_end_packet])
     (simp_all add: is_end_of_session_def session_5_def)

lemma run_other_after_1:
  "process_packet session_1 other_packet =
     (False, session_1\<lparr> packets_received := 2, state := Error \<rparr>)"
  by (subst process_packet_mismatch [OF parse_other_packet])
     (simp_all add: session_1_def NASDAQ_def OTHER_def)

lemma run_packet_5_after:
  assumes "st \<noteq> Unknown"
  shows "state (snd (process_packet (session_1\<lparr> packets_received := 2, state := st \<rparr>) packet_5))
     = Stale"
proof -
  have "process_packet (session_1\<lparr> packets_received := 2, state := st \<rparr>)
      (NASDAQ @ to_be 8 (unat (5 :: 64 word)) @ to_be 2 (unat (1 :: 16 word)) @
        concat (map message_block [[0x41, 0x00, 0x01]]) @ []) =
      (True, session_5\<lparr> packets_received := 3 \<rparr>)"
    using assms
    by (subst process_packet_gap)
       (simp_all add: length_NASDAQ fits16_test session_1_def session_5_def END_OF_SESSION_def)
  then show ?thesis
    by (simp add: packet_5_def create_moldudp_packet_def session_5_def)
qed

lemma run_heartbeat_first:
  "process_packet test_session heartbeat_packet =
     (True, test_session\<lparr> packets_received := 1, session_id := NASDAQ, state := Active,
        heartbeats_received := 1 \<rparr>)"
  by (subst process_packet_first_heartbeat [OF parse_heartbeat_packet])
     (simp_all add: is_heartbeat_def HEARTBEAT_SEQUENCE_def test_session_def new_session_def
        set_gap_callback_def set_message_callback_def)

lemma truncated_test: "truncated_block [0x00, 0x03, 0x09]"
  by (simp add: truncated_block_def read_be16_def)

lemma run_truncated_packet:
  "process_packet test_session truncated_packet =
     (True, session_1\<lparr> expected_sequence := 3 \<rparr>)"
proof -
  have "process_packet test_session
      (NASDAQ @ to_be 8 (unat (1 :: 64 word)) @ to_be 2 (unat (2 :: 16 word)) @
        concat (map message_block [[0x41, 0x00, 0x01]]) @ [0x00, 0x03, 0x09]) =
      (True, session_1\<lparr> expected_sequence := 3 \<rparr>)"
    by (subst process_packet_in_order)
       (simp_all add: length_NASDAQ fits16_test truncated_test test_session_def new_session_def
          set_gap_callback_def set_message_callback_def gaps_filled_check_def session_1_def)
  then show ?thesis
    by (simp add: truncated_packet_def create_moldudp_packet_def)
qed

lemma reachable_test_session: "session_reachable test_session"
  unfolding test_session_def
  by (intro reach_set_message_callback reach_set_gap_callback reach_new_session)

lemma runs:
  "process_packets test_session [packet_1, packet_5] = session_5"
  "process_packets test_session [packet_1, packet_5, end_packet] =
     session_5\<lparr> packets_received := 3, state := EndOfSession \<rparr>"
  "process_packets test_session [packet_1, end_packet] =
     session_1\<lparr> packets_received := 2, state := EndOfSession \<rparr>"
  "process_packets test_session [packet_1, other_packet] =
     session_1\<lparr> packets_received := 2, state := Error \<rparr>"
  by (simp_all add: process_packets_def run_packet_1 run_packet_5 run_end_after_1
      run_end_after_5 run_other_after_1)

lemma run_wrap_packet:
  "expected_sequence (snd (process_packet session_1 wrap_packet)) = 2
   \<and> state (snd (process_packet session_1 wrap_packet)) = Stale
   \<and> length (message_calls (snd (process_packet session_1 wrap_packet))) = 4"
proof -
  have "fits16 [[0x41], [0x42], [0x43]]"
    by (simp add: fits16_def)
  then have "process_packet session_1
      (NASDAQ @ to_be 8 (unat (0xFFFFFFFFFFFFFFFE :: 64 word)) @ to_be 2 (unat (3 :: 16 word)) @
        concat (map message_block [[0x41], [0x42], [0x43]]) @ []) =
      (True, session_1\<lparr> packets_received := 2,
         pending_gaps := [\<lparr> gap_start = 2, gap_end = 0xFFFFFFFFFFFFFFFD, detected_at_ns = 0 \<rparr>],
         gaps_detected := 1, state := Stale,
         gap_calls := [\<lparr> gap_start = 2, gap_end = 0xFFFFFFFFFFFFFFFD, detected_at_ns = 0 \<rparr>],
         message_calls := message_calls session_1 @
           calls_from 0xFFFFFFFFFFFFFFFE [[0x41], [0x42], [0x43]],
         messages_received := 4 \<rparr>)"
    by (subst process_packet_gap)
       (simp_all add: length_NASDAQ session_1_def END_OF_SESSION_def)
  then show ?thesis
    by (simp add: wrap_packet_def create_moldudp_packet_def session_1_def)
qed

subsection \<open>The claims about the session layer\<close>

text \<open>
  Claim C1, as amended. A freshly constructed session with both callbacks installed is
  fed a well-formed packet with sequence number 1 and \<open>c1 > 0\<close> messages, then a
  well-formed packet of the same session with sequence number \<open>c1 + g + 1\<close> (\<open>g \<ge> 1\<close>) and
  \<open>c2\<close> messages. Provided the second sequence number is not the end-of-session value
  \<open>2 ^ 64 - 1\<close> and \<open>c1 + g + 1 + c2\<close> stays below \<open>2 ^ 64\<close>: exactly one gap, from \<open>c1 + 1\<close> to
  \<open>c1 + g\<close>, is on the pending list and has been passed to the gap callback; the state is
  \<open>Stale\<close>; the message callback has received the messages of both packets in wire order,
  those of the second packet numbered from \<open>c1 + g + 1\<close>; and \<open>expected_sequence\<close> is
  \<open>c1 + g + 1 + c2\<close>.
\<close>

theorem gap_after_first_packet:
  fixes sid sidz :: "byte list" and msa msb :: "byte list list" and g :: nat
  assumes sid: "length sid = 10"
    and fits1: "fits16 msa" and fits2: "fits16 msb"
    and c1: "0 < length msa" "length msa < 65536" and c2: "length msb < 65536"
    and g: "1 \<le> g"
    and neos: "length msa + g + 1 < 2 ^ 64 - 1"
    and nowrap: "length msa + g + 1 + length msb < 2 ^ 64"
  defines "s0 \<equiv> set_message_callback (set_gap_callback (new_session sidz))"
    and "p1 \<equiv> create_moldudp_packet sid 1 (of_nat (length msa)) msa"
    and "p2 \<equiv> create_moldudp_packet sid (of_nat (length msa + g + 1)) (of_nat (length msb)) msb"
  defines "s2 \<equiv> snd (process_packet (snd (process_packet s0 p1)) p2)"
  shows "pending_gaps s2 =
           [\<lparr> gap_start = of_nat (length msa + 1), gap_end = of_nat (length msa + g),
              detected_at_ns = 0 \<rparr>]
       \<and> gap_calls s2 = pending_gaps s2
       \<and> unat (gap_start (hd (pending_gaps s2))) = length msa + 1
       \<and> unat (gap_end (hd (pending_gaps s2))) = length msa + g
       \<and> state s2 = Stale
       \<and> message_calls s2 =
           calls_from 1 msa @ calls_from (of_nat (length msa + g + 1)) msb
       \<and> expected_sequence s2 = of_nat (length msa + g + 1 + length msb)
       \<and> unat (expected_sequence s2) = length msa + g + 1 + length msb"
proof -
  let ?c1 = "of_nat (length msa) :: 16 word"
  let ?c2 = "of_nat (length msb) :: 16 word"
  let ?seq = "of_nat (length msa + g + 1) :: 64 word"
  have u1: "unat ?c1 = length msa" using c1(2) by (rule unat_of_nat_16)
  have u2: "unat ?c2 = length msb" using c2 by (rule unat_of_nat_16)
  have useq: "unat ?seq = length msa + g + 1" using neos by (intro unat_of_nat_64) simp
  have e1: "(ucast ?c1 :: 64 word) = of_nat (length msa)"
    using c1(2) by (rule ucast_of_nat_count)
  have e2: "(ucast ?c2 :: 64 word) = of_nat (length msb)"
    using c2 by (rule ucast_of_nat_count)
  \<comment> \<open>the first packet\<close>
  have p1: "p1 = sid @ to_be 8 (unat (1 :: 64 word)) @ to_be 2 (unat ?c1) @
      concat (map message_block msa) @ []"
    by (simp add: p1_def create_moldudp_packet_def)
  have "?c1 \<noteq> 0"
    using u1 c1(1) by (auto simp flip: unat_eq_0)
  moreover have "unat (1 :: 64 word) + unat ?c1 < 2 ^ 64"
    using u1 c1(2) by simp
  ultimately have s1: "process_packet s0 p1 =
      (True, gaps_filled_check
         (s0\<lparr> packets_received := packets_received s0 + 1,
             session_id := sid,
             state := (if state s0 = Unknown then Active else state s0),
             message_calls := message_calls s0 @ calls_from 1 msa,
             messages_received := messages_received s0 + of_nat (length msa),
             expected_sequence := 1 + ucast ?c1 \<rparr>))"
    unfolding p1 using sid fits1 u1
    by (intro process_packet_in_order)
       (simp_all add: s0_def new_session_def set_gap_callback_def set_message_callback_def)
  define s1 where "s1 = snd (process_packet s0 p1)"
  have s1_eq: "s1 = s0\<lparr> packets_received := 1, session_id := sid, state := Active,
      message_calls := calls_from 1 msa, messages_received := of_nat (length msa),
      expected_sequence := of_nat (length msa + 1) \<rparr>"
    unfolding s1_def s1
    by (simp add: gaps_filled_check_def e1 s0_def new_session_def set_gap_callback_def
        set_message_callback_def)
  \<comment> \<open>the second packet\<close>
  have p2: "p2 = sid @ to_be 8 (unat ?seq) @ to_be 2 (unat ?c2) @
      concat (map message_block msb) @ []"
    by (simp add: p2_def create_moldudp_packet_def)
  have "expected_sequence s1 = of_nat (length msa + 1)"
    unfolding s1_eq by simp
  moreover have "unat (of_nat (length msa + 1) :: 64 word) = length msa + 1"
    using c1(2) by (intro unat_of_nat_64) simp
  ultimately have exp1: "unat (expected_sequence s1) = length msa + 1"
    by (simp only:)
  have above: "expected_sequence s1 < ?seq"
    using exp1 useq g by (simp add: word_less_nat_alt)
  have ne: "?seq \<noteq> END_OF_SESSION"
    using useq neos unat_END_OF_SESSION by (metis nat_neq_iff)
  have nw: "unat ?seq + unat ?c2 < 2 ^ 64"
    using useq u2 nowrap by simp
  have "process_packet s1 p2 =
      (True,
         s1\<lparr> packets_received := packets_received s1 + 1,
             pending_gaps := pending_gaps s1 @
               [\<lparr> gap_start = expected_sequence s1, gap_end = ?seq - 1, detected_at_ns = 0 \<rparr>],
             gaps_detected := gaps_detected s1 + 1,
             state := Stale,
             gap_calls := (if gap_callback s1
               then gap_calls s1 @
                 [\<lparr> gap_start = expected_sequence s1, gap_end = ?seq - 1, detected_at_ns = 0 \<rparr>]
               else gap_calls s1),
             message_calls := message_calls s1 @ calls_from ?seq msb,
             messages_received := messages_received s1 + of_nat (length msb),
             expected_sequence := (if expected_sequence s1 < ?seq + ucast ?c2
               then ?seq + ucast ?c2 else expected_sequence s1) \<rparr>)"
    unfolding p2 using sid above ne fits2 u2
    by (intro process_packet_gap)
       (simp_all add: s1_eq s0_def new_session_def set_gap_callback_def set_message_callback_def)
  moreover have "expected_sequence s1 < ?seq + ucast ?c2"
    using above unat_seq_plus_count [OF nw] by (simp add: word_less_nat_alt)
  ultimately have s2_eq: "s2 =
      s1\<lparr> packets_received := 2,
          pending_gaps := [\<lparr> gap_start = of_nat (length msa + 1),
             gap_end = of_nat (length msa + g), detected_at_ns = 0 \<rparr>],
          gaps_detected := 1,
          state := Stale,
          gap_calls := [\<lparr> gap_start = of_nat (length msa + 1),
             gap_end = of_nat (length msa + g), detected_at_ns = 0 \<rparr>],
          message_calls := calls_from 1 msa @ calls_from ?seq msb,
          messages_received := of_nat (length msa + length msb),
          expected_sequence := of_nat (length msa + g + 1 + length msb) \<rparr>"
    unfolding s2_def s1_def [symmetric]
    by (simp add: s1_eq e2 s0_def new_session_def set_gap_callback_def set_message_callback_def)
  have "unat (of_nat (length msa + 1) :: 64 word) = length msa + 1"
    using c1(2) by (intro unat_of_nat_64) simp
  moreover have "unat (of_nat (length msa + g) :: 64 word) = length msa + g"
    using neos by (intro unat_of_nat_64) simp
  moreover have "unat (of_nat (length msa + g + 1 + length msb) :: 64 word)
      = length msa + g + 1 + length msb"
    using nowrap by (rule unat_of_nat_64)
  ultimately show ?thesis
    unfolding s2_eq by simp
qed

theorem gap_after_first_packet_witness:
  "length NASDAQ = 10 \<and> fits16 [[0x41, 0x00, 0x01]] \<and> (1::nat) \<le> 3
   \<and> pending_gaps (snd (process_packet (snd (process_packet test_session packet_1)) packet_5))
       = [\<lparr> gap_start = 2, gap_end = 4, detected_at_ns = 0 \<rparr>]
   \<and> gap_calls (snd (process_packet (snd (process_packet test_session packet_1)) packet_5))
       = [\<lparr> gap_start = 2, gap_end = 4, detected_at_ns = 0 \<rparr>]
   \<and> state (snd (process_packet (snd (process_packet test_session packet_1)) packet_5)) = Stale
   \<and> message_calls (snd (process_packet (snd (process_packet test_session packet_1)) packet_5))
       = [([0x41, 0x00, 0x01], 3, 1), ([0x41, 0x00, 0x01], 3, 5)]
   \<and> expected_sequence (snd (process_packet (snd (process_packet test_session packet_1)) packet_5))
       = 6"
  using gap_after_first_packet [where sid = NASDAQ and sidz = "replicate 10 0"
      and msa = "[[0x41, 0x00, 0x01]]" and msb = "[[0x41, 0x00, 0x01]]" and g = 3]
  by (simp add: length_NASDAQ fits16_test test_session_def packet_1_def packet_5_def)

text \<open>
  Without the two provisos claim C1 fails. With \<open>c1 = 1\<close>, \<open>g = 2 ^ 64 - 3\<close> and \<open>c2 = 0\<close>
  the second packet carries the sequence number \<open>2 ^ 64 - 1\<close>: it is the end-of-session
  packet, no gap is recorded and the state is not \<open>Stale\<close>. With \<open>c1 = 1\<close>,
  \<open>g = 2 ^ 64 - 4\<close> and \<open>c2 = 3\<close> the sum \<open>seq + count\<close> wraps around to 1, which is not above
  the expected sequence number 2, so \<open>expected_sequence\<close> stays 2.
\<close>

theorem gap_after_first_packet_counterexample:
  "(1::nat) \<le> 2 ^ 64 - 3
   \<and> create_moldudp_packet NASDAQ (of_nat (1 + (2 ^ 64 - 3) + 1)) (of_nat 0) [] = end_packet
   \<and> state (process_packets test_session [packet_1, end_packet]) \<noteq> Stale
   \<and> pending_gaps (process_packets test_session [packet_1, end_packet]) = []
   \<and> gap_calls (process_packets test_session [packet_1, end_packet]) = []
   \<and> (1::nat) \<le> 2 ^ 64 - 4
   \<and> create_moldudp_packet NASDAQ (of_nat (1 + (2 ^ 64 - 4) + 1)) (of_nat 3)
         [[0x41], [0x42], [0x43]] = wrap_packet
   \<and> expected_sequence (snd (process_packet (snd (process_packet test_session packet_1))
         wrap_packet)) = 2
   \<and> (2 :: 64 word) \<noteq> of_nat (1 + (2 ^ 64 - 4) + 1 + 3)"
proof -
  have a: "create_moldudp_packet NASDAQ (of_nat (1 + (2 ^ 64 - 3) + 1)) (of_nat 0) [] = end_packet"
    by (simp add: end_packet_def END_OF_SESSION_def)
  have b: "create_moldudp_packet NASDAQ (of_nat (1 + (2 ^ 64 - 4) + 1)) (of_nat 3)
         [[0x41], [0x42], [0x43]] = wrap_packet"
    by (simp add: wrap_packet_def)
  have c: "state (process_packets test_session [packet_1, end_packet]) \<noteq> Stale
      \<and> pending_gaps (process_packets test_session [packet_1, end_packet]) = []
      \<and> gap_calls (process_packets test_session [packet_1, end_packet]) = []"
    by (simp add: runs session_1_def)
  have d: "expected_sequence (snd (process_packet (snd (process_packet test_session packet_1))
         wrap_packet)) = 2"
    by (simp add: run_packet_1 run_wrap_packet)
  have e: "(2 :: 64 word) \<noteq> of_nat (1 + (2 ^ 64 - 4) + 1 + 3)"
    by simp
  from a b c d e show ?thesis
    by simp
qed

text \<open>
  Claim C3, as amended. In every reachable session \<open>has_gaps\<close> holds exactly when the
  pending gap list is not empty; a \<open>Stale\<close> session has a pending gap; and a session with
  a pending gap is \<open>Stale\<close>, \<open>EndOfSession\<close> or \<open>Error\<close>. So the gap list is non-empty exactly
  when the state is \<open>Stale\<close> as long as the state is neither \<open>EndOfSession\<close> nor \<open>Error\<close>.
\<close>

theorem gaps_and_stale:
  assumes "session_reachable s"
  shows "(has_gaps s \<longleftrightarrow> pending_gaps s \<noteq> [])
       \<and> (state s = Stale \<longrightarrow> pending_gaps s \<noteq> [])
       \<and> (pending_gaps s \<noteq> [] \<longrightarrow> state s = Stale \<or> state s = EndOfSession \<or> state s = Error)
       \<and> (state s \<noteq> EndOfSession \<and> state s \<noteq> Error \<longrightarrow>
            (pending_gaps s \<noteq> [] \<longleftrightarrow> state s = Stale))"
proof -
  from assms have "session_inv s" by (rule reachable_session_inv)
  then show ?thesis
    by (cases "state s") (auto simp: session_inv_def has_gaps_def)
qed

theorem gaps_and_stale_witness:
  "session_reachable (process_packets test_session [packet_1, packet_5])
   \<and> state (process_packets test_session [packet_1, packet_5]) = Stale
   \<and> has_gaps (process_packets test_session [packet_1, packet_5])
   \<and> pending_gaps (process_packets test_session [packet_1, packet_5]) \<noteq> []"
proof -
  have r: "session_reachable (process_packets test_session [packet_1, packet_5])"
    using reachable_test_session by (rule reachable_process_packets)
  have st: "state (process_packets test_session [packet_1, packet_5]) = Stale"
    by (simp add: runs session_5_def)
  from gaps_and_stale [OF r] r st show ?thesis
    by simp
qed

text \<open>
  Claim C3 as stated fails: an end-of-session packet that arrives while a gap is pending
  sets the state to \<open>EndOfSession\<close> and leaves the gap on the list.
\<close>

theorem gaps_and_stale_counterexample:
  "session_reachable (process_packets test_session [packet_1, packet_5, end_packet])
   \<and> has_gaps (process_packets test_session [packet_1, packet_5, end_packet])
   \<and> pending_gaps (process_packets test_session [packet_1, packet_5, end_packet]) \<noteq> []
   \<and> state (process_packets test_session [packet_1, packet_5, end_packet]) \<noteq> Stale"
proof -
  have "session_reachable (process_packets test_session [packet_1, packet_5, end_packet])"
    using reachable_test_session by (rule reachable_process_packets)
  then show ?thesis
    by (simp add: runs session_5_def has_gaps_def)
qed

text \<open>
  One call of \<open>process_packet\<close> on a session whose state is \<open>EndOfSession\<close> or \<open>Error\<close>:
  nothing in the function looks at these two states, so the packet is handled as in any
  other state.
\<close>

lemma terminal_state_step:
  assumes "state s = EndOfSession \<or> state s = Error"
  shows "state (snd (process_packet s data)) =
     (case HeaderParser_parse data of
        None \<Rightarrow> state s
      | Some h \<Rightarrow>
          if session_id s \<noteq> session h then Error
          else if is_heartbeat h then state s
          else if is_end_of_session h then EndOfSession
          else if expected_sequence s < sequence_number h then Stale
          else state s)"
proof (cases "HeaderParser_parse data")
  case None
  then show ?thesis by (simp add: process_packet_def)
next
  case (Some h)
  let ?s1 = "s\<lparr> packets_received := packets_received s + 1 \<rparr>"
  have g: "state (gaps_filled_check (update_expected h (process_messages h data (gap_check h ?s1))))
      = (if expected_sequence s < sequence_number h then Stale else state s)"
    using assms by (auto simp: gaps_filled_check_def gap_check_def Let_def)
  show ?thesis
    using assms Some g by (auto simp: process_packet_def session_check_def)
qed

text \<open>
  Claim C4, as amended. \<open>EndOfSession\<close> is not terminal. From a session in state
  \<open>EndOfSession\<close>, \<open>process_packet\<close> keeps the state for a buffer shorter than the header,
  for a heartbeat, for an end-of-session packet and for a packet of the same session at
  or below the expected sequence number; it sets \<open>Error\<close> for a packet of another session
  and \<open>Stale\<close> for a packet of the same session above the expected sequence number.
\<close>

theorem leaving_end_of_session:
  assumes "state s = EndOfSession"
  shows "state (snd (process_packet s data)) =
     (case HeaderParser_parse data of
        None \<Rightarrow> EndOfSession
      | Some h \<Rightarrow>
          if session_id s \<noteq> session h then Error
          else if is_heartbeat h \<or> is_end_of_session h then EndOfSession
          else if expected_sequence s < sequence_number h then Stale
          else EndOfSession)"
proof -
  from assms have "state s = EndOfSession \<or> state s = Error"
    by simp
  from terminal_state_step [OF this, of data] assms show ?thesis
    by (simp split: option.splits)
qed

theorem leaving_end_of_session_witness:
  "state (process_packets test_session [packet_1, end_packet]) = EndOfSession
   \<and> state (snd (process_packet (process_packets test_session [packet_1, end_packet]) packet_5))
       = Stale
   \<and> state (snd (process_packet (process_packets test_session [packet_1, end_packet])
         heartbeat_packet)) = EndOfSession"
proof -
  let ?s = "process_packets test_session [packet_1, end_packet]"
  have st: "state ?s = EndOfSession"
    by (simp add: runs)
  have f: "session_id ?s = NASDAQ" "expected_sequence ?s = 2"
    by (simp_all add: runs session_1_def)
  from leaving_end_of_session [OF st, of packet_5]
    leaving_end_of_session [OF st, of heartbeat_packet] st f
  show ?thesis
    by (simp add: parse_packet_5 parse_heartbeat_packet is_heartbeat_def is_end_of_session_def
        HEARTBEAT_SEQUENCE_def END_OF_SESSION_def)
qed

text \<open>
  Claim C4 as stated fails: after the end-of-session packet, and likewise after a packet
  of another session has set \<open>Error\<close>, the packet with sequence number 5 opens a gap and
  the state becomes \<open>Stale\<close>.
\<close>

theorem terminal_states_counterexample:
  "session_reachable (process_packets test_session [packet_1, end_packet])
   \<and> state (process_packets test_session [packet_1, end_packet]) = EndOfSession
   \<and> state (snd (process_packet (process_packets test_session [packet_1, end_packet]) packet_5))
       = Stale
   \<and> session_reachable (process_packets test_session [packet_1, other_packet])
   \<and> state (process_packets test_session [packet_1, other_packet]) = Error
   \<and> state (snd (process_packet (process_packets test_session [packet_1, other_packet]) packet_5))
       = Stale"
proof -
  have "session_reachable (process_packets test_session [packet_1, end_packet])"
    and "session_reachable (process_packets test_session [packet_1, other_packet])"
    using reachable_test_session by (rule reachable_process_packets)+
  then show ?thesis
    by (simp add: runs run_packet_5_after)
qed

text \<open>
  Claim C6, as amended. For an in-order packet (sequence number equal to
  \<open>expected_sequence\<close>, declared count \<open>N\<close>, \<open>seq + N < 2 ^ 64\<close>) of which only \<open>k < N\<close> blocks
  are complete, on a session with the message callback installed, \<open>process_packet\<close>
  dispatches exactly the \<open>k\<close> complete messages and advances \<open>expected_sequence\<close> by the
  declared count \<open>N\<close>, not by \<open>k\<close>.
\<close>

theorem truncated_in_order_packet:
  fixes seq :: "64 word" and cnt :: "16 word"
  assumes sid: "length sid = 10"
    and sess: "state s = Unknown \<or> session_id s = sid"
    and cb: "message_callback s"
    and ord: "seq = expected_sequence s"
    and nowrap: "unat seq + unat cnt < 2 ^ 64"
    and fits: "fits16 ms" and k: "length ms < unat cnt"
    and trunc: "truncated_block rest"
  defines "r \<equiv> process_packet s (create_moldudp_packet sid seq cnt ms @ rest)"
  shows "fst r
       \<and> message_calls (snd r) = message_calls s @ calls_from seq ms
       \<and> length (message_calls (snd r)) = length (message_calls s) + length ms
       \<and> messages_received (snd r) = messages_received s + of_nat (length ms)
       \<and> expected_sequence (snd r) = expected_sequence s + ucast cnt
       \<and> unat (expected_sequence (snd r)) = unat (expected_sequence s) + unat cnt"
proof -
  have data: "create_moldudp_packet sid seq cnt ms @ rest =
      sid @ to_be 8 (unat seq) @ to_be 2 (unat cnt) @ concat (map message_block ms) @ rest"
    by (simp add: create_moldudp_packet_def)
  from k have "cnt \<noteq> 0"
    by (auto simp flip: unat_eq_0)
  moreover from k have "length ms \<le> unat cnt"
    by simp
  ultimately have "r = (True, gaps_filled_check
            (s\<lparr> packets_received := packets_received s + 1,
                session_id := sid,
                state := (if state s = Unknown then Active else state s),
                message_calls := message_calls s @ calls_from seq ms,
                messages_received := messages_received s + of_nat (length ms),
                expected_sequence := seq + ucast cnt \<rparr>))"
    unfolding r_def data using sid sess cb ord nowrap fits trunc
    by (intro process_packet_in_order) simp_all
  moreover have "unat (seq + ucast cnt) = unat seq + unat cnt"
    using nowrap by (rule unat_seq_plus_count)
  ultimately show ?thesis
    using ord by (simp add: gaps_filled_check_def)
qed

theorem truncated_in_order_packet_witness:
  "length NASDAQ = 10 \<and> state test_session = Unknown \<and> message_callback test_session
   \<and> expected_sequence test_session = 1
   \<and> fits16 [[0x41, 0x00, 0x01]] \<and> length [[0x41, 0x00, 0x01 :: byte]] < unat (2 :: 16 word)
   \<and> truncated_block [0x00, 0x03, 0x09]
   \<and> fst (process_packet test_session truncated_packet)
   \<and> message_calls (snd (process_packet test_session truncated_packet))
       = [([0x41, 0x00, 0x01], 3, 1)]
   \<and> messages_received (snd (process_packet test_session truncated_packet)) = 1
   \<and> expected_sequence (snd (process_packet test_session truncated_packet)) = 3"
proof -
  have ts: "state test_session = Unknown" "message_callback test_session"
    "expected_sequence test_session = 1" "message_calls test_session = []"
    "messages_received test_session = 0"
    by (simp_all add: test_session_def new_session_def set_gap_callback_def
        set_message_callback_def)
  from truncated_in_order_packet [where sid = NASDAQ and s = test_session and seq = 1
      and cnt = 2 and ms = "[[0x41, 0x00, 0x01]]" and rest = "[0x00, 0x03, 0x09]"]
  show ?thesis
    by (simp add: ts length_NASDAQ fits16_test truncated_test truncated_packet_def)
qed

text \<open>
  Claim C6 as stated fails: the packet that announces two messages and holds one complete
  block makes one call of the callback and moves \<open>expected_sequence\<close> from 1 to 3.
\<close>

theorem truncated_in_order_packet_counterexample:
  "expected_sequence test_session = 1
   \<and> length (message_calls (snd (process_packet test_session truncated_packet))) = 1
   \<and> expected_sequence (snd (process_packet test_session truncated_packet)) = 3
   \<and> expected_sequence (snd (process_packet test_session truncated_packet))
       \<noteq> expected_sequence test_session + 1"
proof -
  have "expected_sequence test_session = 1"
    by (simp add: test_session_def new_session_def set_gap_callback_def
        set_message_callback_def)
  then show ?thesis
    by (simp add: run_truncated_packet session_1_def)
qed

text \<open>
  Claim C8, as amended. A heartbeat (sequence number 0, count 0) processed by a session
  that is not in state \<open>Unknown\<close> and has the packet's session identifier leaves the
  state, \<open>expected_sequence\<close> and the pending gap list unchanged and adds one to
  \<open>heartbeats_received\<close>. Processed in state \<open>Unknown\<close> it is the first packet of the
  session: the state becomes \<open>Active\<close>, the rest is as before.
\<close>

theorem heartbeat_keeps_session:
  fixes s :: Session and data :: "byte list"
  assumes "HeaderParser_parse data = Some h" and "is_heartbeat h"
  defines "r \<equiv> process_packet s data"
  shows "(state s \<noteq> Unknown \<and> session_id s = session h \<longrightarrow>
            fst r \<and> state (snd r) = state s
            \<and> expected_sequence (snd r) = expected_sequence s
            \<and> pending_gaps (snd r) = pending_gaps s
            \<and> heartbeats_received (snd r) = heartbeats_received s + 1)
       \<and> (state s = Unknown \<longrightarrow>
            fst r \<and> state (snd r) = Active
            \<and> expected_sequence (snd r) = expected_sequence s
            \<and> pending_gaps (snd r) = pending_gaps s
            \<and> heartbeats_received (snd r) = heartbeats_received s + 1)"
  using assms(1,2) unfolding r_def
  by (simp add: process_packet_heartbeat process_packet_first_heartbeat)

theorem heartbeat_keeps_session_witness:
  "is_heartbeat \<lparr> session = NASDAQ, sequence_number = 0, message_count = 0 \<rparr>
   \<and> state session_5 = Stale \<and> session_id session_5 = NASDAQ
   \<and> fst (process_packet session_5 heartbeat_packet)
   \<and> state (snd (process_packet session_5 heartbeat_packet)) = Stale
   \<and> expected_sequence (snd (process_packet session_5 heartbeat_packet)) = 6
   \<and> pending_gaps (snd (process_packet session_5 heartbeat_packet)) = pending_gaps session_5
   \<and> heartbeats_received (snd (process_packet session_5 heartbeat_packet)) = 1
   \<and> state test_session = Unknown
   \<and> state (snd (process_packet test_session heartbeat_packet)) = Active
   \<and> expected_sequence (snd (process_packet test_session heartbeat_packet)) = 1
   \<and> pending_gaps (snd (process_packet test_session heartbeat_packet)) = []
   \<and> heartbeats_received (snd (process_packet test_session heartbeat_packet)) = 1"
proof -
  have hb: "is_heartbeat \<lparr> session = NASDAQ, sequence_number = 0, message_count = 0 \<rparr>"
    by (simp add: is_heartbeat_def HEARTBEAT_SEQUENCE_def)
  have ts: "state test_session = Unknown" "expected_sequence test_session = 1"
    "pending_gaps test_session = []" "heartbeats_received test_session = 0"
    by (simp_all add: test_session_def new_session_def set_gap_callback_def
        set_message_callback_def)
  from heartbeat_keeps_session [OF parse_heartbeat_packet hb, where s = session_5]
    heartbeat_keeps_session [OF parse_heartbeat_packet hb, where s = test_session] hb ts
  show ?thesis
    by (simp add: session_5_def)
qed

text \<open>
  Claim C8 as stated (for every session state) fails on a new session: the heartbeat
  changes the state from \<open>Unknown\<close> to \<open>Active\<close>.
\<close>

theorem heartbeat_counterexample:
  "is_heartbeat (the (HeaderParser_parse heartbeat_packet))
   \<and> state test_session = Unknown
   \<and> state (snd (process_packet test_session heartbeat_packet)) = Active
   \<and> state (snd (process_packet test_session heartbeat_packet)) \<noteq> state test_session"
proof -
  have "state test_session = Unknown"
    by (simp add: test_session_def new_session_def set_gap_callback_def
        set_message_callback_def)
  then show ?thesis
    by (simp add: run_heartbeat_first parse_heartbeat_packet is_heartbeat_def
        HEARTBEAT_SEQUENCE_def)
qed

end
